theory Spec2Isabelle
  imports Complex_Main "HOL-Library.Multiset" "HOL-Library.Sublist"
    "HOL-Library.List_Lexorder" "HOL-Library.Char_ord"
begin

section \<open>Errors raised by the corpus code\<close>

text \<open>
  Every \<^verbatim>\<open>raise\<close> of \<^verbatim>\<open>corpus.py\<close>, \<^verbatim>\<open>tools.py\<close> and \<^verbatim>\<open>labeled_example.py\<close> that the
  properties below depend on, and every exception of the Python runtime they can run into, is a
  value of \<open>py_error\<close>. The three \<^verbatim>\<open>ValueError\<close>s of \<^verbatim>\<open>Corpus.__init__\<close> carry the list
  of ids that the message is formatted with.
\<close>

datatype py_error =
    DuplicateTrainingIds "string list"
  | DuplicateTestIds "string list"
  | OverlappingIds "string list"
  | UnpackError
  | KeyError string
  | SampleError
  | RangeStepZero
  | MathDomainError
  | StopIteration
  | TypeError
  | VectorizeSizeZero

section \<open>tools.py\<close>

subsection \<open>duplicates\<close>

text \<open>
  \<^verbatim>\<open>Counter(sequence)\<close> counts the elements of the sequence in a dictionary; the dictionary
  keeps the keys in the order of their first occurrence. It is modelled as an association
  list: \<open>counter_add\<close> is one step \<^verbatim>\<open>self[elem] = self.get(elem, 0) + 1\<close>.
\<close>

fun counter_add :: "'a \<Rightarrow> ('a \<times> nat) list \<Rightarrow> ('a \<times> nat) list" where
  "counter_add x [] = [(x, 1)]"
| "counter_add x ((y, n) # c) = (if x = y then (y, Suc n) # c else (y, n) # counter_add x c)"

definition Counter :: "'a list \<Rightarrow> ('a \<times> nat) list" where
  "Counter sequence = foldl (\<lambda>c x. counter_add x c) [] sequence"

text \<open>\<^verbatim>\<open>[item for item, count in Counter(sequence).items() if count > 1]\<close>\<close>

definition duplicates :: "'a list \<Rightarrow> 'a list" where
  "duplicates sequence = map fst (filter (\<lambda>(item, count). count > 1) (Counter sequence))"

subsection \<open>paginate\<close>

text \<open>
  \<^verbatim>\<open>for start in range(0, len(sequence), page_size): yield sequence[start:start + page_size]\<close>.
  \<open>pages_from\<close> is the loop from a given \<open>start\<close> on, for a positive step. \<open>paginate\<close> adds
  what \<^verbatim>\<open>range\<close> does with the other steps: a step of zero raises \<^verbatim>\<open>ValueError\<close> (when the
  generator is first advanced), a negative step gives the empty range. The result is the
  sequence of pages the generator yields when it is run to its end.
\<close>

function pages_from :: "'a list \<Rightarrow> nat \<Rightarrow> nat \<Rightarrow> 'a list list" where
  "pages_from sequence page_size start =
     (if 0 < page_size \<and> start < length sequence
      then take page_size (drop start sequence) # pages_from sequence page_size (start + page_size)
      else [])"
  by pat_completeness auto
termination
  by (relation "measure (\<lambda>(sequence, page_size, start). length sequence - start)") auto

declare pages_from.simps [simp del]

definition paginate :: "'a list \<Rightarrow> int \<Rightarrow> py_error + 'a list list" where
  "paginate sequence page_size =
     (if page_size = 0 then Inl RangeStepZero
      else if page_size < 0 then Inr []
      else Inr (pages_from sequence (nat page_size) 0))"

subsection \<open>group\<close>

text \<open>
  \<^verbatim>\<open>OrderedDict((k, tuple(map(value, values))) for k, values in groupby(sorted(iterable, key=key), key))\<close>.
  \<^verbatim>\<open>sorted\<close> is a stable sort by the key (\<open>sort_key\<close>), \<^verbatim>\<open>groupby\<close> cuts the list into
  runs of neighbours with equal keys, and \<^verbatim>\<open>OrderedDict\<close> stores the pairs in the order it
  receives them: a key it already holds keeps its place and takes the new value.
\<close>

function groupby :: "('a \<Rightarrow> 'k) \<Rightarrow> 'a list \<Rightarrow> ('k \<times> 'a list) list" where
  "groupby key [] = []"
| "groupby key (x # xs) =
     (key x, x # takeWhile (\<lambda>y. key y = key x) xs) # groupby key (dropWhile (\<lambda>y. key y = key x) xs)"
  by pat_completeness auto
termination
  by (relation "measure (\<lambda>(key, xs). length xs)") (auto simp: length_dropWhile_le less_Suc_eq_le)

fun dict_set :: "'k \<Rightarrow> 'v \<Rightarrow> ('k \<times> 'v) list \<Rightarrow> ('k \<times> 'v) list" where
  "dict_set k v [] = [(k, v)]"
| "dict_set k v ((k', v') # d) = (if k = k' then (k', v) # d else (k', v') # dict_set k v d)"

definition OrderedDict :: "('k \<times> 'v) list \<Rightarrow> ('k \<times> 'v) list" where
  "OrderedDict pairs = foldl (\<lambda>d (k, v). dict_set k v d) [] pairs"

definition group :: "'a list \<Rightarrow> ('a \<Rightarrow> 'k::linorder) \<Rightarrow> ('a \<Rightarrow> 'v) \<Rightarrow> ('k \<times> 'v list) list" where
  "group iterable key val =
     OrderedDict (map (\<lambda>(k, values). (k, map val values)) (groupby key (sort_key key iterable)))"

text \<open>\<^verbatim>\<open>dict.keys()\<close>, in the dictionary's order.\<close>

definition keys :: "('k \<times> 'v) list \<Rightarrow> 'k list" where
  "keys d = map fst d"

section \<open>The random generator\<close>

text \<open>
  The module \<^verbatim>\<open>random\<close> holds one generator for the whole process; every call reads and
  advances it. The model passes its state explicitly. A state is the stream of raw draws
  still to come; \<open>randbelow g n\<close> takes the next draw into the range below \<open>n\<close>.
  What state a seed gives (the initialisation of the generator) is outside the repository:
  the functions that call \<^verbatim>\<open>random.seed\<close> take it as the parameter \<open>seed\<close>.
\<close>

type_synonym rng = "nat \<Rightarrow> nat"

definition randbelow :: "rng \<Rightarrow> nat \<Rightarrow> nat \<times> rng" where
  "randbelow g n = (g 0 mod n, \<lambda>i. g (Suc i))"

text \<open>
  \<^verbatim>\<open>random.sample(population, k)\<close> raises \<^verbatim>\<open>ValueError\<close> unless \<open>0 \<le> k \<le> len(population)\<close>
  and otherwise draws \<open>k\<close> positions of the population without repetition. \<open>sample_loop\<close>
  is the selection loop of the library on a pool of the elements not drawn yet:
  \<^verbatim>\<open>j = randbelow(n - i); result[i] = pool[j]; pool[j] = pool[n - i - 1]\<close>; the pool of the
  model is the part of the library's pool that is still in use, so that it shrinks by one
  with every draw. (For a population that is large against \<open>k\<close> the library records the
  positions drawn in a set and draws again on a repetition; the draws it returns are of the
  same kind, \<open>k\<close> different positions, and the model uses the pool throughout.)
\<close>

fun sample_loop :: "rng \<Rightarrow> 'a list \<Rightarrow> nat \<Rightarrow> 'a list \<times> rng" where
  "sample_loop g pool 0 = ([], g)"
| "sample_loop g pool (Suc k) =
     (let (j, g') = randbelow g (length pool);
          x = pool ! j;
          (result, g'') = sample_loop g' (butlast (pool[j := last pool])) k
      in (x # result, g''))"

definition random_sample :: "rng \<Rightarrow> 'a list \<Rightarrow> int \<Rightarrow> py_error + ('a list \<times> rng)" where
  "random_sample g population k =
     (if 0 \<le> k \<and> k \<le> int (length population)
      then Inr (sample_loop g population (nat k))
      else Inl SampleError)"

section \<open>Labeled examples and corpora\<close>

text \<open>
  Modelled from the spec: the attribute \<^verbatim>\<open>audio_file\<close> of a labeled example.
  \<^verbatim>\<open>corpus.py\<close> reads three attributes of a labeled example, \<^verbatim>\<open>id\<close>, \<^verbatim>\<open>audio_file\<close> and
  \<^verbatim>\<open>label\<close> (an optional string), and \<^verbatim>\<open>Corpus.load\<close> builds an example from the three.
  The class \<^verbatim>\<open>LabeledExample\<close> of \<^verbatim>\<open>labeled_example.py\<close> has \<^verbatim>\<open>id\<close> and \<^verbatim>\<open>label\<close>, and
  is built from a function that loads the audio, not from a path; the path is the
  \<^verbatim>\<open>audio_file_path\<close> of the manifest row that the spec describes. The record has the three
  attributes. The path is held in its string form \<^verbatim>\<open>str(audio_file)\<close>, so that
  \<^verbatim>\<open>Path(str(p))\<close> is \<open>p\<close> again. The field for \<^verbatim>\<open>id\<close> is called \<open>id_ex\<close> (\<open>id\<close> is the
  identity function of HOL).
\<close>

record labeled_example =
  id_ex :: string
  audio_file :: string
  label :: "string option"

datatype Phase = training | test

text \<open>\<^verbatim>\<open>phase.value\<close>, and the lookup by name \<^verbatim>\<open>Phase[phase]\<close>, which raises \<^verbatim>\<open>KeyError\<close>.\<close>

fun Phase_value :: "Phase \<Rightarrow> string" where
  "Phase_value training = ''training''"
| "Phase_value test = ''test''"

definition Phase_by_name :: "string \<Rightarrow> py_error + Phase" where
  "Phase_by_name name =
     (if name = ''training'' then Inr training
      else if name = ''test'' then Inr test
      else Inl (KeyError name))"

record Corpus =
  training_examples :: "labeled_example list"
  test_examples :: "labeled_example list"
  examples :: "labeled_example list"

text \<open>
  \<^verbatim>\<open>Corpus.__init__\<close>: three checks in this order, each raising with the duplicates it found.
\<close>

definition Corpus_init :: "labeled_example list \<Rightarrow> labeled_example list \<Rightarrow> py_error + Corpus" where
  "Corpus_init training_exs test_exs =
     (let duplicate_training_ids = duplicates (map id_ex training_exs) in
      if length duplicate_training_ids > 0 then Inl (DuplicateTrainingIds duplicate_training_ids)
      else
        let duplicate_test_ids = duplicates (map id_ex test_exs) in
        if length duplicate_test_ids > 0 then Inl (DuplicateTestIds duplicate_test_ids)
        else
          let overlapping_ids = duplicates (map id_ex (training_exs @ test_exs)) in
          if length overlapping_ids > 0 then Inl (OverlappingIds overlapping_ids)
          else Inr \<lparr>training_examples = training_exs, test_examples = test_exs,
                    examples = training_exs @ test_exs\<rparr>)"

subsection \<open>save and load\<close>

text \<open>
  \<^verbatim>\<open>save\<close> hands one row per example to \<^verbatim>\<open>writer.writerow\<close>. The result of \<open>save\<close> is the
  list of these rows, field by field as the text the writer makes of it: a string as it is
  and \<^verbatim>\<open>None\<close> as the empty string (\<open>csv_field\<close>).
\<close>

fun csv_field :: "string option \<Rightarrow> string" where
  "csv_field None = []"
| "csv_field (Some s) = s"

definition save :: "Corpus \<Rightarrow> string list list" where
  "save c =
     (let examples_and_phase = map (\<lambda>e. (e, training)) (training_examples c) @
                               map (\<lambda>e. (e, test)) (test_examples c)
      in map (\<lambda>(e, phase). [id_ex e, audio_file e, csv_field (label e), Phase_value phase])
           examples_and_phase)"

text \<open>
  \<^verbatim>\<open>save\<close> and \<^verbatim>\<open>load\<close> open the manifest in text mode and do not pass \<^verbatim>\<open>newline=''\<close>.
  The writer quotes a field that holds a comma, a quote, a carriage return or a line feed, and
  the reader undoes the quoting; but the text layer under the reader turns every carriage
  return, alone or followed by a line feed, into one line feed before the reader sees it.
  \<open>universal_newlines\<close> is this translation, and \<open>csv_reader\<close> gives the rows that the reader
  yields from the file in which the writer has written the given rows (on a platform whose
  line separator is the line feed, where writing leaves the text as it is).
\<close>

definition CR :: char where
  "CR = CHR 0x0D"

definition LF :: char where
  "LF = CHR 0x0A"

fun universal_newlines :: "string \<Rightarrow> string" where
  "universal_newlines [] = []"
| "universal_newlines [c] = (if c = CR then [LF] else [c])"
| "universal_newlines (c # d # cs) =
     (if c = CR \<and> d = LF then LF # universal_newlines cs
      else if c = CR then LF # universal_newlines (d # cs)
      else c # universal_newlines (d # cs))"

definition csv_reader :: "string list list \<Rightarrow> string list list" where
  "csv_reader written = map (map universal_newlines) written"

text \<open>
  The constructor of \<^verbatim>\<open>LabeledExample\<close> in \<^verbatim>\<open>labeled_example.py\<close> has the parameters
  \<^verbatim>\<open>id\<close>, \<^verbatim>\<open>get_raw_sound_and_sample_rate\<close>, \<^verbatim>\<open>label\<close>, \<^verbatim>\<open>fourier_window_length\<close>,
  \<^verbatim>\<open>hop_length\<close> and \<^verbatim>\<open>asserted_sample_rate\<close>, the first three without a default.
  \<open>bind_keywords\<close> is what Python does with the keyword arguments of a call: a keyword that
  is no parameter, or a parameter without default that is not given, raises \<^verbatim>\<open>TypeError\<close>.
\<close>

definition LabeledExample_parameters :: "string list" where
  "LabeledExample_parameters =
     [''id'', ''get_raw_sound_and_sample_rate'', ''label'', ''fourier_window_length'',
      ''hop_length'', ''asserted_sample_rate'']"

definition LabeledExample_required :: "string list" where
  "LabeledExample_required = [''id'', ''get_raw_sound_and_sample_rate'', ''label'']"

definition bind_keywords :: "string list \<Rightarrow> string list \<Rightarrow> string list \<Rightarrow> py_error + unit" where
  "bind_keywords parameters required given =
     (if \<not> set given \<subseteq> set parameters then Inl TypeError
      else if \<not> set required \<subseteq> set given then Inl TypeError
      else Inr ())"

text \<open>
  One step of the comprehension of \<^verbatim>\<open>load\<close>: the row is unpacked into four fields
  (\<^verbatim>\<open>ValueError\<close> when it has another number of fields), the constructor is called as
  \<^verbatim>\<open>LabeledExample(audio_file=Path(audio_file_path), id=id, label=label)\<close>, and the phase is
  looked up by its name.
\<close>

fun load_row :: "string list \<Rightarrow> py_error + labeled_example \<times> Phase" where
  "load_row [i, audio_file_path, l, phase] =
     (case bind_keywords LabeledExample_parameters LabeledExample_required
             [''audio_file'', ''id'', ''label''] of
        Inl e \<Rightarrow> Inl e
      | Inr _ \<Rightarrow>
          (case Phase_by_name phase of
             Inl e \<Rightarrow> Inl e
           | Inr p \<Rightarrow> Inr (\<lparr>id_ex = i, audio_file = audio_file_path, label = Some l\<rparr>, p)))"
| "load_row _ = Inl UnpackError"

fun load_rows :: "string list list \<Rightarrow> py_error + (labeled_example \<times> Phase) list" where
  "load_rows [] = Inr []"
| "load_rows (row # rows) =
     (case load_row row of
        Inl e \<Rightarrow> Inl e
      | Inr x \<Rightarrow> (case load_rows rows of Inl e \<Rightarrow> Inl e | Inr xs \<Rightarrow> Inr (x # xs)))"

text \<open>\<^verbatim>\<open>load\<close>, given the rows that were written to the file it opens.\<close>

definition load :: "string list list \<Rightarrow> py_error + Corpus" where
  "load written =
     (case load_rows (csv_reader written) of
        Inl e \<Rightarrow> Inl e
      | Inr exs \<Rightarrow>
          Corpus_init (map fst (filter (\<lambda>(e, phase). phase = training) exs))
                      (map fst (filter (\<lambda>(e, phase). phase = test) exs)))"

subsection \<open>CombinedCorpus\<close>

record CombinedCorpus = Corpus +
  corpora :: "Corpus list"

text \<open>
  \<^verbatim>\<open>CombinedCorpus.__init__\<close> passes the two concatenations to \<^verbatim>\<open>Corpus.__init__\<close>, whose
  errors it lets through.
\<close>

definition CombinedCorpus_init :: "Corpus list \<Rightarrow> py_error + CombinedCorpus" where
  "CombinedCorpus_init cs =
     (case Corpus_init (concat (map training_examples cs)) (concat (map test_examples cs)) of
        Inl e \<Rightarrow> Inl e
      | Inr c \<Rightarrow> Inr \<lparr>training_examples = training_examples c, test_examples = test_examples c,
                      examples = examples c, corpora = cs\<rparr>)"

section \<open>Split strategies\<close>

subsection \<open>overfit\<close>

text \<open>
  Python's slices \<^verbatim>\<open>xs[:n]\<close> and \<^verbatim>\<open>xs[n:]\<close>: a negative bound counts from the end, and a
  bound outside the list is clipped; a slice never raises.
\<close>

definition slice_bound :: "'a list \<Rightarrow> int \<Rightarrow> nat" where
  "slice_bound xs n = (if n < 0 then nat (int (length xs) + n) else nat n)"

definition slice_to :: "'a list \<Rightarrow> int \<Rightarrow> 'a list" where
  "slice_to xs n = take (slice_bound xs n) xs"

definition slice_from :: "'a list \<Rightarrow> int \<Rightarrow> 'a list" where
  "slice_from xs n = drop (slice_bound xs n) xs"

text \<open>\<^verbatim>\<open>lambda examples: (examples[:training_example_count], examples[training_example_count:])\<close>\<close>

definition overfit :: "int \<Rightarrow> 'a list \<Rightarrow> 'a list \<times> 'a list" where
  "overfit training_example_count exs =
     (slice_to exs training_example_count, slice_from exs training_example_count)"

subsection \<open>randomly_grouped_by and its specialisations\<close>

text \<open>
  The split returned by \<^verbatim>\<open>randomly_grouped_by(key_from_example, training_share)\<close>, run on
  \<open>exs\<close> with the process's generator in state \<open>g\<close>; it returns its result (or the error
  raised) and the state it leaves the generator in. \<open>training_count n\<close> stands for
  \<^verbatim>\<open>int(training_share * n)\<close>, a product of floating-point numbers. \<^verbatim>\<open>random.sample\<close>
  is given the key view of the grouping and samples from the keys in the order of the
  dictionary, as the Python versions that the code is written for do (3.4 and later, up to
  the version that made \<^verbatim>\<open>random.sample\<close> refuse a population that is not a sequence).
\<close>

definition randomly_grouped_by ::
  "(int \<Rightarrow> rng) \<Rightarrow> (labeled_example \<Rightarrow> 'k::linorder) \<Rightarrow> (nat \<Rightarrow> int) \<Rightarrow> rng \<Rightarrow>
   labeled_example list \<Rightarrow> (py_error + labeled_example list \<times> labeled_example list) \<times> rng" where
  "randomly_grouped_by seed key_from_example training_count g exs =
     (let examples_by_directory = group exs key_from_example (\<lambda>x. x);
          directories = keys examples_by_directory;
          g1 = seed 42
      in case random_sample g1 directories (training_count (length directories)) of
           Inl e \<Rightarrow> (Inl e, g1)
         | Inr (sampled, g2) \<Rightarrow>
             (let ks = set sampled;
                  training_exs = filter (\<lambda>e. key_from_example e \<in> ks) exs;
                  test_exs = filter (\<lambda>e. key_from_example e \<notin> ks) exs
              in (Inr (training_exs, test_exs), g2)))"

text \<open>
  \<^verbatim>\<open>randomly\<close> groups by \<^verbatim>\<open>e.id\<close>; the ids are strings, which \<^verbatim>\<open>sorted\<close> compares
  lexicographically. \<^verbatim>\<open>randomly_grouped_by_directory\<close> groups by \<^verbatim>\<open>e.audio_directory\<close>, an
  attribute that \<^verbatim>\<open>labeled_example.py\<close> does not define: it is the parameter
  \<open>audio_directory\<close>, into any linearly ordered type.
\<close>

definition randomly ::
  "(int \<Rightarrow> rng) \<Rightarrow> (nat \<Rightarrow> int) \<Rightarrow> rng \<Rightarrow>
   labeled_example list \<Rightarrow> (py_error + labeled_example list \<times> labeled_example list) \<times> rng" where
  "randomly seed training_count g exs =
     randomly_grouped_by seed (\<lambda>e. id_ex e) training_count g exs"

definition randomly_grouped_by_directory ::
  "(int \<Rightarrow> rng) \<Rightarrow> (labeled_example \<Rightarrow> 'k::linorder) \<Rightarrow> (nat \<Rightarrow> int) \<Rightarrow> rng \<Rightarrow>
   labeled_example list \<Rightarrow> (py_error + labeled_example list \<times> labeled_example list) \<times> rng" where
  "randomly_grouped_by_directory seed audio_directory training_count g exs =
     randomly_grouped_by seed (\<lambda>e. audio_directory e) training_count g exs"

subsection \<open>by_directory\<close>

text \<open>
  \<open>audio_directory_name e\<close> stands for \<^verbatim>\<open>e.audio_directory.name\<close>, the name of the directory
  that holds the example's audio file.
\<close>

definition by_directory ::
  "(labeled_example \<Rightarrow> string) \<Rightarrow> string \<Rightarrow> labeled_example list \<Rightarrow>
   labeled_example list \<times> labeled_example list" where
  "by_directory audio_directory_name test_directory_name exs =
     (let training_exs = filter (\<lambda>e. audio_directory_name e \<noteq> test_directory_name) exs;
          test_exs = filter (\<lambda>e. audio_directory_name e = test_directory_name) exs
      in (training_exs, test_exs))"

section \<open>The batch generator\<close>

text \<open>
  Modelled from the spec: \<^verbatim>\<open>CachedLabeledSpectrogram\<close>, which \<^verbatim>\<open>corpus.py\<close> imports from
  \<^verbatim>\<open>labeled_example.py\<close> and which that file does not define. The spec describes it as a
  wrapper that holds the labeled example and the shared cache directory.
\<close>

record CachedLabeledSpectrogram =
  example :: labeled_example
  cache_directory :: string

definition CachedLabeledSpectrogram_init :: "labeled_example \<Rightarrow> string \<Rightarrow> CachedLabeledSpectrogram" where
  "CachedLabeledSpectrogram_init e dir = \<lparr>example = e, cache_directory = dir\<rparr>"

record LabeledSpectrogramBatchGenerator =
  batch_size :: int
  spectrogram_cache_directory :: string
  labeled_training_spectrograms :: "CachedLabeledSpectrogram list"
  labeled_test_spectrograms :: "CachedLabeledSpectrogram list"
  labeled_spectrograms :: "CachedLabeledSpectrogram list"

text \<open>
  \<^verbatim>\<open>LabeledSpectrogramBatchGenerator.__init__\<close>; the creation of the cache directory on disk
  is left out.
\<close>

definition LabeledSpectrogramBatchGenerator_init ::
  "Corpus \<Rightarrow> string \<Rightarrow> int \<Rightarrow> LabeledSpectrogramBatchGenerator" where
  "LabeledSpectrogramBatchGenerator_init corpus dir size_of_batch =
     (let tr = map (\<lambda>e. CachedLabeledSpectrogram_init e dir) (training_examples corpus);
          te = map (\<lambda>e. CachedLabeledSpectrogram_init e dir) (test_examples corpus)
      in \<lparr>batch_size = size_of_batch, spectrogram_cache_directory = dir,
          labeled_training_spectrograms = tr, labeled_test_spectrograms = te,
          labeled_spectrograms = tr @ te\<rparr>)"

text \<open>
  \<^verbatim>\<open>training_batches\<close> is a generator that never ends by itself:
  \<^verbatim>\<open>while True: yield random.sample(self.labeled_training_spectrograms, self.batch_size)\<close>.
  \<open>training_batches_next\<close> is one \<^verbatim>\<open>next()\<close> on it: it takes the state of the generator
  object and of the random generator and returns the batch (or the error raised) with the two
  new states. A generator that has raised is finished, and every later \<^verbatim>\<open>next()\<close> raises
  \<^verbatim>\<open>StopIteration\<close>.
\<close>

datatype generator_state = Running | Finished

definition training_batches_next ::
  "LabeledSpectrogramBatchGenerator \<Rightarrow> generator_state \<Rightarrow> rng \<Rightarrow>
   (py_error + CachedLabeledSpectrogram list) \<times> generator_state \<times> rng" where
  "training_batches_next gen st g =
     (case st of
        Finished \<Rightarrow> (Inl StopIteration, Finished, g)
      | Running \<Rightarrow>
          (case random_sample g (labeled_training_spectrograms gen) (batch_size gen) of
             Inl e \<Rightarrow> (Inl e, Finished, g)
           | Inr (batch, g') \<Rightarrow> (Inr batch, Running, g')))"

definition test_batches ::
  "LabeledSpectrogramBatchGenerator \<Rightarrow> py_error + CachedLabeledSpectrogram list list" where
  "test_batches gen = paginate (labeled_test_spectrograms gen) (batch_size gen)"

section \<open>The power level of a power spectrogram\<close>

text \<open>
  The floating-point numbers of the source are taken as real numbers. An array is the list
  of its rows.

  \<^verbatim>\<open>power_to_decibel\<close> returns either the floor it was given or the product
  \<^verbatim>\<open>10 * math.log10(x)\<close>, a float. The default of the parameter \<^verbatim>\<open>min_decibel\<close> is written
  \<^verbatim>\<open>-150\<close>, an int (the annotation \<^verbatim>\<open>float\<close> converts nothing), so that the value returned
  is of one or the other type of Python number. \<^verbatim>\<open>math.log10\<close> raises \<^verbatim>\<open>ValueError\<close> (math
  domain error) on an argument that is not positive.
\<close>

datatype py_number = PyInt int | PyFloat real

fun value_of :: "py_number \<Rightarrow> real" where
  "value_of (PyInt i) = real_of_int i"
| "value_of (PyFloat r) = r"

definition math_log10 :: "real \<Rightarrow> py_error + real" where
  "math_log10 x = (if x \<le> 0 then Inl MathDomainError else Inr (log 10 x))"

definition power_to_decibel :: "real \<Rightarrow> py_number \<Rightarrow> py_error + py_number" where
  "power_to_decibel x min_decibel =
     (if x = 0 then Inr min_decibel
      else case math_log10 x of
             Inl e \<Rightarrow> Inl e
           | Inr v \<Rightarrow> (let l = 10 * v
                      in Inr (if l < value_of min_decibel then min_decibel else PyFloat l)))"

definition min_decibel_default :: py_number where
  "min_decibel_default = PyInt (- 150)"

text \<open>
  \<^verbatim>\<open>numpy.vectorize(f)(array)\<close> without \<^verbatim>\<open>otypes\<close>: it refuses an array without elements,
  calls \<open>f\<close> on the first element of the array to learn the type of the result, applies
  \<open>f\<close> to every element, and converts the results to an array of the type learnt: of 64-bit
  integers when the first result is an int, of floats when it is a float. The conversion of
  a float to an integer truncates towards zero (\<open>int_of_number\<close>). An exception raised by
  \<open>f\<close> ends the call.
\<close>

datatype ndarray = IntArray "int list list" | FloatArray "real list list"

fun int_of_number :: "py_number \<Rightarrow> int" where
  "int_of_number (PyInt i) = i"
| "int_of_number (PyFloat r) = (if 0 \<le> r then \<lfloor>r\<rfloor> else \<lceil>r\<rceil>)"

fun sequence :: "(py_error + 'a) list \<Rightarrow> py_error + 'a list" where
  "sequence [] = Inr []"
| "sequence (r # rs) =
     (case r of
        Inl e \<Rightarrow> Inl e
      | Inr x \<Rightarrow> (case sequence rs of Inl e \<Rightarrow> Inl e | Inr xs \<Rightarrow> Inr (x # xs)))"

definition vectorize :: "(real \<Rightarrow> py_error + py_number) \<Rightarrow> real list list \<Rightarrow> py_error + ndarray" where
  "vectorize f array =
     (case concat array of
        [] \<Rightarrow> Inl VectorizeSizeZero
      | x # _ \<Rightarrow>
          (case f x of
             Inl e \<Rightarrow> Inl e
           | Inr first \<Rightarrow>
               (case sequence (map (\<lambda>row. sequence (map f row)) array) of
                  Inl e \<Rightarrow> Inl e
                | Inr outputs \<Rightarrow>
                    Inr (case first of
                           PyInt _ \<Rightarrow> IntArray (map (map int_of_number) outputs)
                         | PyFloat _ \<Rightarrow> FloatArray (map (map value_of) outputs)))))"

text \<open>\<^verbatim>\<open>vectorize(power_to_decibel)(spectrogram)\<close>, with the default floor.\<close>

definition power_level_from_power_spectrogram :: "real list list \<Rightarrow> py_error + ndarray" where
  "power_level_from_power_spectrogram spectrogram =
     vectorize (\<lambda>x. power_to_decibel x min_decibel_default) spectrogram"

text \<open>
  The number that \<^verbatim>\<open>power_to_decibel\<close>, with the default floor, returns for a power value
  that is not negative.
\<close>

definition level :: "real \<Rightarrow> py_number" where
  "level x = (if 0 < x \<and> - 150 \<le> 10 * log 10 x then PyFloat (10 * log 10 x) else PyInt (- 150))"

section \<open>Z-normalisation\<close>

text \<open>
  \<^verbatim>\<open>mean(array)\<close> and \<^verbatim>\<open>std(array)\<close> of numpy, called without an axis: the mean of all
  elements of the array, and the square root of the mean of the squared distances of all
  elements from that mean (no correction of the degrees of freedom).
\<close>

definition mean :: "real list list \<Rightarrow> real" where
  "mean array = sum_list (concat array) / real (length (concat array))"

definition std :: "real list list \<Rightarrow> real" where
  "std array = sqrt (mean (map (map (\<lambda>v. \<bar>v - mean array\<bar> ^ 2)) array))"

text \<open>
  \<^verbatim>\<open>(array - mean(array)) / std(array)\<close>: the two scalars are subtracted from and divided into
  every element. Where the elements of the array have a standard deviation of zero, numpy
  divides zero by zero and the result holds no number (\<open>None\<close>); an array without elements
  is returned as it is.
\<close>

definition z_normalize :: "real list list \<Rightarrow> real list list option" where
  "z_normalize array =
     (if concat array \<noteq> [] \<and> std array = 0 then None
      else Some (map (map (\<lambda>v. (v - mean array) / std array)) array))"

text \<open>
  \<^verbatim>\<open>z_normalized_transposed_spectrogram\<close>: the mel-scale power-level spectrogram, computed by
  the signal-processing library and taken as given, is transposed and then normalised.
\<close>

definition z_normalized_transposed_spectrogram :: "real list list \<Rightarrow> real list list option" where
  "z_normalized_transposed_spectrogram mel_spectrogram = z_normalize (transpose mel_spectrogram)"

section \<open>Sample data\<close>

text \<open>Four labeled examples, on which the properties below are run.\<close>

definition example_a :: labeled_example where
  "example_a = \<lparr>id_ex = ''a'', audio_file = ''corpus/one/a.wav'', label = Some ''hello''\<rparr>"

definition example_b :: labeled_example where
  "example_b = \<lparr>id_ex = ''b'', audio_file = ''corpus/one/b.wav'', label = Some ''world''\<rparr>"

definition example_c :: labeled_example where
  "example_c = \<lparr>id_ex = ''c'', audio_file = ''corpus/test/c.wav'', label = None\<rparr>"

definition example_d :: labeled_example where
  "example_d = \<lparr>id_ex = ''d'', audio_file = ''corpus/test/d.wav'', label = Some ''again''\<rparr>"

definition corpus_one :: Corpus where
  "corpus_one = \<lparr>training_examples = [example_a], test_examples = [example_c],
                  examples = [example_a, example_c]\<rparr>"

definition corpus_two :: Corpus where
  "corpus_two = \<lparr>training_examples = [example_b], test_examples = [example_d],
                  examples = [example_b, example_d]\<rparr>"

definition sample_directory_name :: "labeled_example \<Rightarrow> string" where
  "sample_directory_name e = (if id_ex e = ''c'' \<or> id_ex e = ''d'' then ''test'' else ''one'')"

definition sample_corpus :: Corpus where
  "sample_corpus = \<lparr>training_examples = [example_a, example_b], test_examples = [example_c],
                     examples = [example_a, example_b, example_c]\<rparr>"

text \<open>A corpus with 130 test examples, and a generator on it with the default batch size.\<close>

definition corpus_130 :: Corpus where
  "corpus_130 =
     \<lparr>training_examples = [],
      test_examples = map (\<lambda>i. \<lparr>id_ex = replicate i CHR ''a'', audio_file = ''a.wav'',
                                   label = None\<rparr>) [0..<130],
      examples = map (\<lambda>i. \<lparr>id_ex = replicate i CHR ''a'', audio_file = ''a.wav'',
                              label = None\<rparr>) [0..<130]\<rparr>"

definition generator_130 :: LabeledSpectrogramBatchGenerator where
  "generator_130 = LabeledSpectrogramBatchGenerator_init corpus_130 ''cache'' 64"

section \<open>Properties\<close>

subsection \<open>Pages of the test set\<close>

text \<open>
  The counts and sizes that the operations take (\<^verbatim>\<open>batch_size\<close>, \<^verbatim>\<open>page_size\<close>,
  \<^verbatim>\<open>training_example_count\<close>) are Python integers. The properties read them as natural
  numbers, zero included; what the code does with a negative one is in the definitions and
  not in the properties.
\<close>

lemma pages_from_step:
  "0 < n \<Longrightarrow> s < length xs \<Longrightarrow>
   pages_from xs n s = take n (drop s xs) # pages_from xs n (s + n)"
  by (subst pages_from.simps) simp

lemma pages_from_done:
  "\<not> (0 < n \<and> s < length xs) \<Longrightarrow> pages_from xs n s = []"
  by (subst pages_from.simps) simp

lemma pages_count_step:
  fixes n d :: nat
  assumes "0 < n" "0 < d"
  shows "Suc ((d - n + n - 1) div n) = (d + n - 1) div n"
proof -
  have e: "d + n - 1 = (d - 1) + n" using assms by simp
  have "((d - 1) + n) div n = (d - 1) div n + 1" using assms by (intro div_add_self2) simp
  then have r: "(d + n - 1) div n = Suc ((d - 1) div n)" unfolding e by (simp only: Suc_eq_plus1)
  show ?thesis
  proof (cases "n \<le> d")
    case True
    then have "d - n + n - 1 = d - 1" by simp
    then show ?thesis using r by simp
  next
    case False
    then have "(d - 1) div n = 0" and "(d - n + n - 1) div n = 0" using assms by simp_all
    then show ?thesis using r by simp
  qed
qed

lemma length_pages_from:
  "0 < n \<Longrightarrow> length (pages_from xs n s) = (length xs - s + n - 1) div n"
proof (induction xs n s rule: pages_from.induct)
  case (1 xs n s)
  show ?case
  proof (cases "s < length xs")
    case True
    have "length (pages_from xs n s) = Suc (length (pages_from xs n (s + n)))"
      using True "1.prems" by (simp add: pages_from_step)
    also have "\<dots> = Suc ((length xs - (s + n) + n - 1) div n)"
      using "1.IH" True "1.prems" by simp
    also have "length xs - (s + n) = (length xs - s) - n" by simp
    also have "Suc ((length xs - s - n + n - 1) div n) = (length xs - s + n - 1) div n"
      using pages_count_step [of n "length xs - s"] True "1.prems" by simp
    finally show ?thesis .
  next
    case False
    then have "length xs - s = 0" by simp
    then show ?thesis using False "1.prems" by (simp add: pages_from_done)
  qed
qed

lemma nth_pages_from:
  "0 < n \<Longrightarrow> i < length (pages_from xs n s) \<Longrightarrow>
   pages_from xs n s ! i = take n (drop (s + i * n) xs)"
proof (induction xs n s arbitrary: i rule: pages_from.induct)
  case (1 xs n s)
  show ?case
  proof (cases "s < length xs")
    case True
    note step = pages_from_step [OF "1.prems"(1) True]
    show ?thesis
    proof (cases i)
      case 0
      then show ?thesis using step by simp
    next
      case (Suc j)
      then have "j < length (pages_from xs n (s + n))" using "1.prems"(2) step by simp
      then have "pages_from xs n (s + n) ! j = take n (drop (s + n + j * n) xs)"
        using "1.IH" True "1.prems"(1) by simp
      then show ?thesis using step Suc by (simp add: ac_simps)
    qed
  next
    case False
    then show ?thesis using "1.prems" by (simp add: pages_from_done)
  qed
qed

lemma concat_pages_from:
  "0 < n \<Longrightarrow> concat (pages_from xs n s) = drop s xs"
proof (induction xs n s rule: pages_from.induct)
  case (1 xs n s)
  show ?case
  proof (cases "s < length xs")
    case True
    have "concat (pages_from xs n s) = take n (drop s xs) @ concat (pages_from xs n (s + n))"
      using True "1.prems" by (simp add: pages_from_step)
    also have "concat (pages_from xs n (s + n)) = drop (s + n) xs"
      using "1.IH" True "1.prems" by simp
    also have "take n (drop s xs) @ drop (s + n) xs = drop s xs"
      by (metis add.commute append_take_drop_id drop_drop)
    finally show ?thesis .
  next
    case False
    then show ?thesis by (simp add: pages_from_done)
  qed
qed

lemma page_lengths:
  assumes "0 < n" "i < length (pages_from xs n 0)"
  shows "length (pages_from xs n 0 ! i) =
           (if Suc i < length (pages_from xs n 0) then n else length xs - i * n)"
    and "0 < length (pages_from xs n 0 ! i)"
    and "length (pages_from xs n 0 ! i) \<le> n"
proof -
  let ?m = "length (pages_from xs n 0)"
  have m: "?m = (length xs + n - 1) div n" using assms(1) by (simp add: length_pages_from)
  have nth: "pages_from xs n 0 ! i = take n (drop (i * n) xs)"
    using nth_pages_from [OF assms] by simp
  have up: "?m * n \<le> length xs + n - 1" unfolding m by simp
  have low: "length xs + n - 1 < n + ?m * n"
    unfolding m using assms(1) dividend_less_div_times by blast
  have "Suc i * n \<le> ?m * n" using assms(2) by (simp add: Suc_leI del: mult_Suc)
  then have "i * n + n \<le> length xs + n - 1" using up by simp
  moreover have "0 < length xs" using assms(2) m assms(1) by (cases "length xs = 0") auto
  ultimately have lt: "i * n < length xs" by linarith
  have full: "Suc i * n \<le> length xs" if "Suc i < ?m"
  proof -
    have "Suc (Suc i) * n \<le> ?m * n" using that by (simp add: Suc_leI del: mult_Suc)
    then have "Suc i * n + n \<le> length xs + n - 1" using up by simp
    then show ?thesis by linarith
  qed
  have last: "length xs - i * n \<le> n" if "\<not> Suc i < ?m"
  proof -
    have "?m * n \<le> Suc i * n" using that by (simp del: mult_Suc)
    then have "length xs + n - 1 < n + Suc i * n" using low by linarith
    then show ?thesis by simp
  qed
  show "length (pages_from xs n 0 ! i) =
           (if Suc i < length (pages_from xs n 0) then n else length xs - i * n)"
    using nth lt full last by (auto simp: min_def)
  show "0 < length (pages_from xs n 0 ! i)" using nth lt assms(1) by simp
  show "length (pages_from xs n 0 ! i) \<le> n" using nth by simp
qed


lemma pages_from_eq_map:
  assumes "0 < n"
  shows "pages_from xs n 0 = map (\<lambda>i. take n (drop (i * n) xs)) [0..<(length xs + n - 1) div n]"
proof (rule nth_equalityI)
  show "length (pages_from xs n 0) =
          length (map (\<lambda>i. take n (drop (i * n) xs)) [0..<(length xs + n - 1) div n])"
    using assms by (simp add: length_pages_from)
next
  fix i assume i: "i < length (pages_from xs n 0)"
  then have "i < (length xs + n - 1) div n" using assms by (simp add: length_pages_from)
  then show "pages_from xs n 0 ! i =
      map (\<lambda>i. take n (drop (i * n) xs)) [0..<(length xs + n - 1) div n] ! i"
    using nth_pages_from [OF assms i] by simp
qed

lemma pages_130_64:
  assumes "length xs = 130"
  shows "map length (pages_from xs 64 0) = [64, 64, 2]"
proof -
  have u: "[0..<3] = [0, Suc 0, Suc (Suc 0)]" by (simp add: upt_rec)
  have "(length xs + 64 - 1) div 64 = (3::nat)" using assms by simp
  then have "pages_from xs 64 0 = map (\<lambda>i. take 64 (drop (i * 64) xs)) [0..<3]"
    using pages_from_eq_map [of 64 xs] by simp
  then show ?thesis using assms unfolding u by simp
qed

text \<open>
  C4 (as amended). For every test set and every batch size of at least one, \<^verbatim>\<open>test_batches()\<close>
  yields a finite sequence of pages: page \<open>i\<close> is the slice of the test list that starts at
  \<open>i * batch_size\<close> and is \<open>batch_size\<close> long (consecutive and non-overlapping), every page
  but the last has exactly \<open>batch_size\<close> elements, no page is empty or longer than
  \<open>batch_size\<close>, and the concatenation of the pages is the test list in corpus order. A test
  set of 130 with batch size 64 yields pages of sizes 64, 64, 2.
\<close>

theorem test_batches_pages:
  assumes "0 < batch_size gen"
  shows "\<exists>pages. test_batches gen = Inr pages
           \<and> concat pages = labeled_test_spectrograms gen
           \<and> pages = map (\<lambda>i. take (nat (batch_size gen))
                                  (drop (i * nat (batch_size gen)) (labeled_test_spectrograms gen)))
                        [0..<(length (labeled_test_spectrograms gen) + nat (batch_size gen) - 1)
                               div nat (batch_size gen)]
           \<and> (\<forall>i. Suc i < length pages \<longrightarrow> length (pages ! i) = nat (batch_size gen))
           \<and> (\<forall>i < length pages. 0 < length (pages ! i) \<and> length (pages ! i) \<le> nat (batch_size gen))
           \<and> (length (labeled_test_spectrograms gen) = 130 \<and> batch_size gen = 64
                \<longrightarrow> map length pages = [64, 64, 2])"
proof -
  let ?n = "nat (batch_size gen)"
  let ?xs = "labeled_test_spectrograms gen"
  have n: "0 < ?n" using assms by simp
  have tb: "test_batches gen = Inr (pages_from ?xs ?n 0)"
    using assms by (simp add: test_batches_def paginate_def)
  have c: "concat (pages_from ?xs ?n 0) = ?xs" using concat_pages_from [OF n, of ?xs 0] by simp
  have full: "\<forall>i. Suc i < length (pages_from ?xs ?n 0) \<longrightarrow> length (pages_from ?xs ?n 0 ! i) = ?n"
  proof (intro allI impI)
    fix i assume a: "Suc i < length (pages_from ?xs ?n 0)"
    then have "i < length (pages_from ?xs ?n 0)" by simp
    from page_lengths(1) [OF n this] a show "length (pages_from ?xs ?n 0 ! i) = ?n" by simp
  qed
  have bounds: "\<forall>i < length (pages_from ?xs ?n 0).
                  0 < length (pages_from ?xs ?n 0 ! i) \<and> length (pages_from ?xs ?n 0 ! i) \<le> ?n"
    using page_lengths(2,3) [OF n] by blast
  have special: "length ?xs = 130 \<and> batch_size gen = 64
                  \<longrightarrow> map length (pages_from ?xs ?n 0) = [64, 64, 2]"
    using pages_130_64 [of ?xs] by auto
  show ?thesis
  proof (intro exI conjI)
    show "test_batches gen = Inr (pages_from ?xs ?n 0)" by (rule tb)
    show "concat (pages_from ?xs ?n 0) = ?xs" by (rule c)
    show "pages_from ?xs ?n 0 =
            map (\<lambda>i. take ?n (drop (i * ?n) ?xs)) [0..<(length ?xs + ?n - 1) div ?n]"
      by (rule pages_from_eq_map [OF n])
    show "\<forall>i. Suc i < length (pages_from ?xs ?n 0) \<longrightarrow> length (pages_from ?xs ?n 0 ! i) = ?n"
      by (rule full)
    show "\<forall>i < length (pages_from ?xs ?n 0).
            0 < length (pages_from ?xs ?n 0 ! i) \<and> length (pages_from ?xs ?n 0 ! i) \<le> ?n"
      by (rule bounds)
    show "length ?xs = 130 \<and> batch_size gen = 64
            \<longrightarrow> map length (pages_from ?xs ?n 0) = [64, 64, 2]"
      by (rule special)
  qed
qed

theorem test_batches_pages_witness:
  "0 < batch_size generator_130
   \<and> length (labeled_test_spectrograms generator_130) = 130
   \<and> batch_size generator_130 = 64
   \<and> (\<exists>pages. test_batches generator_130 = Inr pages
         \<and> concat pages = labeled_test_spectrograms generator_130
         \<and> map length pages = [64, 64, 2])"
proof -
  have h: "0 < batch_size generator_130"
    and l: "length (labeled_test_spectrograms generator_130) = 130 \<and> batch_size generator_130 = 64"
    by (simp_all add: generator_130_def corpus_130_def LabeledSpectrogramBatchGenerator_init_def Let_def)
  from test_batches_pages [OF h] obtain pages where
    p: "test_batches generator_130 = Inr pages"
       "concat pages = labeled_test_spectrograms generator_130"
       "length (labeled_test_spectrograms generator_130) = 130 \<and> batch_size generator_130 = 64
          \<longrightarrow> map length pages = [64, 64, 2]"
    by (elim exE conjE)
  from p(3) l have "map length pages = [64, 64, 2]" by (rule mp)
  with p(1,2) have "\<exists>pages. test_batches generator_130 = Inr pages
         \<and> concat pages = labeled_test_spectrograms generator_130
         \<and> map length pages = [64, 64, 2]"
    by (intro exI conjI)
  with h l show ?thesis by (intro conjI) (elim conjE, assumption)+
qed

lemma test_batches_run:
  "test_batches (LabeledSpectrogramBatchGenerator_init
      \<lparr>training_examples = [example_d], test_examples = [example_a, example_b, example_c],
       examples = [example_d, example_a, example_b, example_c]\<rparr> ''cache'' 2)
   = Inr [[CachedLabeledSpectrogram_init example_a ''cache'',
           CachedLabeledSpectrogram_init example_b ''cache''],
          [CachedLabeledSpectrogram_init example_c ''cache'']]"
  by code_simp

text \<open>
  The claim as stated, for every batch size, fails at batch size zero: \<^verbatim>\<open>range\<close> refuses
  the step and no page is yielded.
\<close>

theorem test_batches_zero_counterexample:
  "test_batches (LabeledSpectrogramBatchGenerator_init
      \<lparr>training_examples = [],
       test_examples = [\<lparr>id_ex = ''a'', audio_file = ''a.wav'', label = None\<rparr>],
       examples = [\<lparr>id_ex = ''a'', audio_file = ''a.wav'', label = None\<rparr>]\<rparr> ''cache'' 0)
   = Inl RangeStepZero"
  by (simp add: test_batches_def paginate_def LabeledSpectrogramBatchGenerator_init_def Let_def)


lemma test_batches_zero:
  "batch_size gen = 0 \<Longrightarrow> test_batches gen = Inl RangeStepZero"
  by (simp add: test_batches_def paginate_def)

subsection \<open>Duplicate ids\<close>

lemma counter_add_keys:
  "map fst (counter_add x c) = (if x \<in> set (map fst c) then map fst c else map fst c @ [x])"
  by (induction c) (force split: if_splits)+

lemma distinct_counter_add:
  "distinct (map fst c) \<Longrightarrow> distinct (map fst (counter_add x c))"
  by (simp add: counter_add_keys)

lemma map_of_counter_add:
  "map_of (counter_add x c) =
     (map_of c)(x \<mapsto> (case map_of c x of None \<Rightarrow> 1 | Some n \<Rightarrow> Suc n))"
  by (induction c) (auto simp: fun_eq_iff)

lemma Counter_snoc: "Counter (xs @ [x]) = counter_add x (Counter xs)"
  by (simp add: Counter_def)

lemma Counter_counts:
  "distinct (map fst (Counter xs)) \<and>
   (\<forall>y. map_of (Counter xs) y = (if y \<in> set xs then Some (count_list xs y) else None))"
proof (induction xs rule: rev_induct)
  case Nil
  show ?case by (simp add: Counter_def)
next
  case (snoc x xs)
  then have d: "distinct (map fst (Counter xs))"
    and m: "\<And>y. map_of (Counter xs) y = (if y \<in> set xs then Some (count_list xs y) else None)"
    by simp_all
  have "distinct (map fst (Counter (xs @ [x])))"
    using d by (simp add: Counter_snoc distinct_counter_add)
  moreover have "map_of (Counter (xs @ [x])) y =
      (if y \<in> set (xs @ [x]) then Some (count_list (xs @ [x]) y) else None)" for y
    by (simp add: Counter_snoc map_of_counter_add m)
  ultimately show ?case by blast
qed

lemma set_duplicates: "set (duplicates xs) = {x. 1 < count_list xs x}"
proof -
  have d: "distinct (map fst (Counter xs))" using Counter_counts by blast
  have "x \<in> set (duplicates xs) \<longleftrightarrow> 1 < count_list xs x" for x
  proof -
    have "x \<in> set (duplicates xs) \<longleftrightarrow> (\<exists>n. (x, n) \<in> set (Counter xs) \<and> 1 < n)"
      by (force simp: duplicates_def)
    also have "\<dots> \<longleftrightarrow> (\<exists>n. map_of (Counter xs) x = Some n \<and> 1 < n)"
      using d by simp
    also have "\<dots> \<longleftrightarrow> x \<in> set xs \<and> 1 < count_list xs x"
      using Counter_counts [of xs] by auto
    also have "\<dots> \<longleftrightarrow> 1 < count_list xs x"
      by (metis count_notin not_one_less_zero)
    finally show ?thesis .
  qed
  then show ?thesis by blast
qed

lemma distinct_duplicates: "distinct (duplicates xs)"
proof -
  have "distinct (map fst (Counter xs))" using Counter_counts by blast
  then show ?thesis unfolding duplicates_def by (rule distinct_map_filter)
qed

lemma distinct_iff_count_list: "distinct xs \<longleftrightarrow> (\<forall>x. count_list xs x \<le> 1)"
proof (induction xs)
  case Nil
  show ?case by simp
next
  case (Cons a xs)
  show ?case
  proof
    assume "distinct (a # xs)"
    then show "\<forall>x. count_list (a # xs) x \<le> 1" using Cons by (auto simp: count_notin)
  next
    assume h: "\<forall>x. count_list (a # xs) x \<le> 1"
    then have "count_list xs a = 0" by (metis count_list.simps(2) add_le_same_cancel2 le_zero_eq)
    then have "a \<notin> set xs" by (simp add: count_list_0_iff)
    moreover have "\<forall>x. count_list xs x \<le> 1" using h by (metis count_list.simps(2) le_add1 le_trans)
    ultimately show "distinct (a # xs)" using Cons by simp
  qed
qed

lemma duplicates_empty_iff: "duplicates xs = [] \<longleftrightarrow> distinct xs"
proof -
  have "duplicates xs = [] \<longleftrightarrow> set (duplicates xs) = {}" by simp
  also have "\<dots> \<longleftrightarrow> (\<forall>x. count_list xs x \<le> 1)"
    unfolding set_duplicates by (auto simp: not_less)
  finally show ?thesis by (simp add: distinct_iff_count_list)
qed


lemma count_list_distinct:
  assumes "distinct xs"
  shows "count_list xs i = (if i \<in> set xs then 1 else 0)"
proof (cases "i \<in> set xs")
  case True
  then have "count_list xs i \<noteq> 0" by (simp add: count_list_0_iff)
  moreover have "count_list xs i \<le> 1" using assms by (simp add: distinct_iff_count_list)
  ultimately show ?thesis using True by simp
next
  case False
  then show ?thesis by simp
qed

lemma overlap_count:
  assumes "distinct xs" "distinct ys"
  shows "{i. 1 < count_list (xs @ ys) i} = set xs \<inter> set ys"
  using assms by (auto simp: count_list_distinct)

lemma Corpus_init_cases:
  "Corpus_init tr te =
     (if \<not> distinct (map id_ex tr) then Inl (DuplicateTrainingIds (duplicates (map id_ex tr)))
      else if \<not> distinct (map id_ex te) then Inl (DuplicateTestIds (duplicates (map id_ex te)))
      else if \<not> distinct (map id_ex (tr @ te))
        then Inl (OverlappingIds (duplicates (map id_ex (tr @ te))))
      else Inr \<lparr>training_examples = tr, test_examples = te, examples = tr @ te\<rparr>)"
  unfolding Corpus_init_def Let_def length_greater_0_conv duplicates_empty_iff
  by (simp only: if_not_P if_P split: if_splits) 

lemma Corpus_init_ok_iff:
  "(\<exists>c. Corpus_init tr te = Inr c) \<longleftrightarrow>
     distinct (map id_ex tr) \<and> distinct (map id_ex te) \<and> distinct (map id_ex (tr @ te))"
  by (subst Corpus_init_cases) (simp only: split: if_splits, blast)

text \<open>
  C3 (as amended). Constructing a Corpus succeeds if and only if no id occurs twice in the
  training list, none occurs twice in the test list and none occurs twice in the two lists
  combined; the corpus then holds the two lists and their concatenation. Otherwise the
  construction raises the error of the first check that fails, in the order training, test,
  combined, and the error names exactly the ids that occur more than once in the list of that
  check (for the third check: exactly the ids shared by the two lists), each once.
\<close>

theorem Corpus_init_checks:
  "((\<exists>c. Corpus_init tr te = Inr c) \<longleftrightarrow>
       distinct (map id_ex tr) \<and> distinct (map id_ex te) \<and> distinct (map id_ex (tr @ te)))
   \<and> (\<forall>c. Corpus_init tr te = Inr c \<longrightarrow>
         training_examples c = tr \<and> test_examples c = te \<and> examples c = tr @ te)
   \<and> (\<not> distinct (map id_ex tr) \<longrightarrow>
         (\<exists>ids. Corpus_init tr te = Inl (DuplicateTrainingIds ids) \<and> distinct ids
            \<and> set ids = {i. 1 < count_list (map id_ex tr) i}))
   \<and> (distinct (map id_ex tr) \<and> \<not> distinct (map id_ex te) \<longrightarrow>
         (\<exists>ids. Corpus_init tr te = Inl (DuplicateTestIds ids) \<and> distinct ids
            \<and> set ids = {i. 1 < count_list (map id_ex te) i}))
   \<and> (distinct (map id_ex tr) \<and> distinct (map id_ex te) \<and> \<not> distinct (map id_ex (tr @ te)) \<longrightarrow>
         (\<exists>ids. Corpus_init tr te = Inl (OverlappingIds ids) \<and> distinct ids
            \<and> set ids = {i. 1 < count_list (map id_ex (tr @ te)) i}
            \<and> set ids = id_ex ` set tr \<inter> id_ex ` set te))"
proof (intro conjI)
  show "(\<exists>c. Corpus_init tr te = Inr c) \<longleftrightarrow>
       distinct (map id_ex tr) \<and> distinct (map id_ex te) \<and> distinct (map id_ex (tr @ te))"
    by (rule Corpus_init_ok_iff)
  show "\<forall>c. Corpus_init tr te = Inr c \<longrightarrow>
         training_examples c = tr \<and> test_examples c = te \<and> examples c = tr @ te"
    by (subst Corpus_init_cases) (auto split: if_splits)
  show "\<not> distinct (map id_ex tr) \<longrightarrow>
         (\<exists>ids. Corpus_init tr te = Inl (DuplicateTrainingIds ids) \<and> distinct ids
            \<and> set ids = {i. 1 < count_list (map id_ex tr) i})"
    by (subst Corpus_init_cases) (simp add: distinct_duplicates set_duplicates)
  show "distinct (map id_ex tr) \<and> \<not> distinct (map id_ex te) \<longrightarrow>
         (\<exists>ids. Corpus_init tr te = Inl (DuplicateTestIds ids) \<and> distinct ids
            \<and> set ids = {i. 1 < count_list (map id_ex te) i})"
    by (subst Corpus_init_cases) (simp add: distinct_duplicates set_duplicates)
  show "distinct (map id_ex tr) \<and> distinct (map id_ex te) \<and> \<not> distinct (map id_ex (tr @ te)) \<longrightarrow>
         (\<exists>ids. Corpus_init tr te = Inl (OverlappingIds ids) \<and> distinct ids
            \<and> set ids = {i. 1 < count_list (map id_ex (tr @ te)) i}
            \<and> set ids = id_ex ` set tr \<inter> id_ex ` set te)"
  proof
    assume a: "distinct (map id_ex tr) \<and> distinct (map id_ex te) \<and> \<not> distinct (map id_ex (tr @ te))"
    then have "Corpus_init tr te = Inl (OverlappingIds (duplicates (map id_ex (tr @ te))))"
      by (subst Corpus_init_cases) simp
    moreover have "{i. 1 < count_list (map id_ex (tr @ te)) i} = id_ex ` set tr \<inter> id_ex ` set te"
      using overlap_count [of "map id_ex tr" "map id_ex te"] a by simp
    ultimately show "\<exists>ids. Corpus_init tr te = Inl (OverlappingIds ids) \<and> distinct ids
            \<and> set ids = {i. 1 < count_list (map id_ex (tr @ te)) i}
            \<and> set ids = id_ex ` set tr \<inter> id_ex ` set te"
      using distinct_duplicates set_duplicates by metis
  qed
qed

theorem Corpus_init_checks_witness:
  "distinct (map id_ex [example_a, example_b]) \<and> distinct (map id_ex [example_c])
   \<and> distinct (map id_ex ([example_a, example_b] @ [example_c]))
   \<and> (\<exists>c. Corpus_init [example_a, example_b] [example_c] = Inr c)
   \<and> \<not> distinct (map id_ex [example_a, example_a])
   \<and> (\<exists>ids. Corpus_init [example_a, example_a] [example_b, example_b] = Inl (DuplicateTrainingIds ids)
         \<and> distinct ids \<and> set ids = {i. 1 < count_list (map id_ex [example_a, example_a]) i})
   \<and> \<not> distinct (map id_ex [example_c, example_c])
   \<and> (\<exists>ids. Corpus_init [example_a] [example_c, example_c] = Inl (DuplicateTestIds ids)
         \<and> distinct ids \<and> set ids = {i. 1 < count_list (map id_ex [example_c, example_c]) i})
   \<and> \<not> distinct (map id_ex ([example_a, example_b] @ [example_c, example_a]))
   \<and> (\<exists>ids. Corpus_init [example_a, example_b] [example_c, example_a] = Inl (OverlappingIds ids)
         \<and> distinct ids
         \<and> set ids = id_ex ` set [example_a, example_b] \<inter> id_ex ` set [example_c, example_a])"
proof -
  have ok: "distinct (map id_ex [example_a, example_b])" "distinct (map id_ex [example_c])"
      "distinct (map id_ex ([example_a, example_b] @ [example_c]))"
      "distinct (map id_ex [example_a])" "distinct (map id_ex [example_c, example_a])"
    by (simp_all add: example_a_def example_b_def example_c_def)
  have bad: "\<not> distinct (map id_ex [example_a, example_a])"
      "\<not> distinct (map id_ex [example_c, example_c])"
      "\<not> distinct (map id_ex ([example_a, example_b] @ [example_c, example_a]))"
    by simp_all
  have w1: "\<exists>c. Corpus_init [example_a, example_b] [example_c] = Inr c"
    using ok conjunct1 [OF Corpus_init_checks [of "[example_a, example_b]" "[example_c]"]]
    by (simp only: simp_thms)
  note t2 = Corpus_init_checks [of "[example_a, example_a]" "[example_b, example_b]"]
  have w2: "\<exists>ids. Corpus_init [example_a, example_a] [example_b, example_b] = Inl (DuplicateTrainingIds ids)
         \<and> distinct ids \<and> set ids = {i. 1 < count_list (map id_ex [example_a, example_a]) i}"
    using bad(1) t2 [THEN conjunct2, THEN conjunct2, THEN conjunct1] by (rule_tac mp)
  note t3 = Corpus_init_checks [of "[example_a]" "[example_c, example_c]"]
  have w3: "\<exists>ids. Corpus_init [example_a] [example_c, example_c] = Inl (DuplicateTestIds ids)
         \<and> distinct ids \<and> set ids = {i. 1 < count_list (map id_ex [example_c, example_c]) i}"
    using ok(4) bad(2) t3 [THEN conjunct2, THEN conjunct2, THEN conjunct2, THEN conjunct1]
    by (simp only: simp_thms)
  note t4 = Corpus_init_checks [of "[example_a, example_b]" "[example_c, example_a]"]
  have "\<exists>ids. Corpus_init [example_a, example_b] [example_c, example_a] = Inl (OverlappingIds ids)
         \<and> distinct ids
         \<and> set ids = {i. 1 < count_list (map id_ex ([example_a, example_b] @ [example_c, example_a])) i}
         \<and> set ids = id_ex ` set [example_a, example_b] \<inter> id_ex ` set [example_c, example_a]"
    using ok(1,5) bad(3) t4 [THEN conjunct2, THEN conjunct2, THEN conjunct2, THEN conjunct2]
    by (simp only: simp_thms)
  then have w4: "\<exists>ids. Corpus_init [example_a, example_b] [example_c, example_a] = Inl (OverlappingIds ids)
         \<and> distinct ids
         \<and> set ids = id_ex ` set [example_a, example_b] \<inter> id_ex ` set [example_c, example_a]"
    by (elim exE conjE) (intro exI conjI)
  show ?thesis
    by (intro conjI ok(1,2,3) bad w1 w2 w3 w4)
qed

text \<open>
  The claim as stated has the error name exactly the duplicated ids. With a duplicate in the
  training list and another in the test list, the error names the first only.
\<close>

theorem Corpus_init_names_first_check_counterexample:
  "Corpus_init [example_a, example_a] [example_b, example_b] = Inl (DuplicateTrainingIds [''a''])
   \<and> count_list (map id_ex [example_b, example_b]) ''b'' = 2"
  by (simp add: Corpus_init_def duplicates_def Counter_def example_a_def example_b_def)

subsection \<open>overfit\<close>

text \<open>
  C6. For every example list of length \<open>L\<close> and every count \<open>n\<close> with \<open>n \<le> L\<close>,
  \<^verbatim>\<open>overfit(n)\<close> returns as training the first \<open>n\<close> elements and as test the remaining
  \<open>L - n\<close> elements, both in input order; \<open>n = 0\<close> gives an empty training set and
  \<open>n = L\<close> an empty test set.
\<close>

theorem overfit_first_n:
  assumes "0 \<le> n" and "n \<le> int (length exs)"
  shows "overfit n exs = (take (nat n) exs, drop (nat n) exs)
         \<and> length (fst (overfit n exs)) = nat n
         \<and> length (snd (overfit n exs)) = length exs - nat n
         \<and> fst (overfit n exs) @ snd (overfit n exs) = exs
         \<and> overfit 0 exs = ([], exs)
         \<and> overfit (int (length exs)) exs = (exs, [])"
  using assms by (simp add: overfit_def slice_to_def slice_from_def slice_bound_def)

theorem overfit_first_n_witness:
  "(0::int) \<le> 2 \<and> 2 \<le> int (length [example_a, example_b, example_c])
   \<and> overfit 2 [example_a, example_b, example_c] = ([example_a, example_b], [example_c])
   \<and> overfit 0 [example_a, example_b, example_c] = ([], [example_a, example_b, example_c])
   \<and> overfit 3 [example_a, example_b, example_c] = ([example_a, example_b, example_c], [])"
  using overfit_first_n [of 2 "[example_a, example_b, example_c]"]
  by simp

subsection \<open>CombinedCorpus\<close>

lemma CombinedCorpus_init_cases:
  "CombinedCorpus_init cs =
     (case Corpus_init (concat (map training_examples cs)) (concat (map test_examples cs)) of
        Inl e \<Rightarrow> Inl e
      | Inr c \<Rightarrow> Inr \<lparr>training_examples = concat (map training_examples cs),
                      test_examples = concat (map test_examples cs),
                      examples = concat (map training_examples cs) @ concat (map test_examples cs),
                      corpora = cs\<rparr>)"
  unfolding CombinedCorpus_init_def
  by (subst (1 2) Corpus_init_cases) simp

text \<open>
  C7. For every list of corpora, the CombinedCorpus built from them has as training list the
  concatenation of the members' training lists, in order, and as test list the concatenation
  of their test lists; its construction runs the duplicate checks of \<^verbatim>\<open>Corpus.__init__\<close> on
  the concatenations: it succeeds exactly when they have no duplicate id, and fails with the
  error of \<^verbatim>\<open>Corpus.__init__\<close> otherwise.
\<close>

theorem CombinedCorpus_concatenates:
  "(\<forall>c. CombinedCorpus_init cs = Inr c \<longrightarrow>
        training_examples c = concat (map training_examples cs)
      \<and> test_examples c = concat (map test_examples cs)
      \<and> examples c = concat (map training_examples cs) @ concat (map test_examples cs)
      \<and> corpora c = cs)
   \<and> ((\<exists>c. CombinedCorpus_init cs = Inr c) \<longleftrightarrow>
        distinct (map id_ex (concat (map training_examples cs)))
      \<and> distinct (map id_ex (concat (map test_examples cs)))
      \<and> distinct (map id_ex (concat (map training_examples cs) @ concat (map test_examples cs))))
   \<and> (\<forall>e. CombinedCorpus_init cs = Inl e \<longleftrightarrow>
        Corpus_init (concat (map training_examples cs)) (concat (map test_examples cs)) = Inl e)"
proof (intro conjI)
  let ?tr = "concat (map training_examples cs)" and ?te = "concat (map test_examples cs)"
  show "\<forall>c. CombinedCorpus_init cs = Inr c \<longrightarrow>
        training_examples c = ?tr \<and> test_examples c = ?te \<and> examples c = ?tr @ ?te \<and> corpora c = cs"
    by (subst CombinedCorpus_init_cases) (auto split: sum.splits)
  have "(\<exists>c. CombinedCorpus_init cs = Inr c) \<longleftrightarrow> (\<exists>c. Corpus_init ?tr ?te = Inr c)"
    by (subst CombinedCorpus_init_cases) (auto split: sum.splits)
  then show "(\<exists>c. CombinedCorpus_init cs = Inr c) \<longleftrightarrow>
        distinct (map id_ex ?tr) \<and> distinct (map id_ex ?te) \<and> distinct (map id_ex (?tr @ ?te))"
    using Corpus_init_ok_iff [of ?tr ?te] by blast
  show "\<forall>e. CombinedCorpus_init cs = Inl e \<longleftrightarrow> Corpus_init ?tr ?te = Inl e"
    by (subst CombinedCorpus_init_cases) (auto split: sum.splits)
qed


theorem CombinedCorpus_concatenates_witness:
  "distinct (map id_ex (concat (map training_examples [corpus_one, corpus_two])))
   \<and> distinct (map id_ex (concat (map test_examples [corpus_one, corpus_two])))
   \<and> distinct (map id_ex (concat (map training_examples [corpus_one, corpus_two]) @
                          concat (map test_examples [corpus_one, corpus_two])))
   \<and> (\<exists>c. CombinedCorpus_init [corpus_one, corpus_two] = Inr c
          \<and> training_examples c = [example_a, example_b]
          \<and> test_examples c = [example_c, example_d]
          \<and> corpora c = [corpus_one, corpus_two])"
proof -
  note t = CombinedCorpus_concatenates [of "[corpus_one, corpus_two]"]
  have d: "distinct (map id_ex (concat (map training_examples [corpus_one, corpus_two])))"
      "distinct (map id_ex (concat (map test_examples [corpus_one, corpus_two])))"
      "distinct (map id_ex (concat (map training_examples [corpus_one, corpus_two]) @
                            concat (map test_examples [corpus_one, corpus_two])))"
    by (simp_all add: corpus_one_def corpus_two_def example_a_def example_b_def
        example_c_def example_d_def)
  then obtain c where c: "CombinedCorpus_init [corpus_one, corpus_two] = Inr c"
    using t [THEN conjunct2, THEN conjunct1] by blast
  then have "training_examples c = concat (map training_examples [corpus_one, corpus_two])"
      "test_examples c = concat (map test_examples [corpus_one, corpus_two])"
      "corpora c = [corpus_one, corpus_two]"
    using t [THEN conjunct1] by blast+
  then have "training_examples c = [example_a, example_b]"
      "test_examples c = [example_c, example_d]" "corpora c = [corpus_one, corpus_two]"
    by (simp_all add: corpus_one_def corpus_two_def)
  with c d show ?thesis by blast
qed

subsection \<open>The keys of a grouping\<close>

text \<open>
  The keys of \<^verbatim>\<open>group(examples, key)\<close> are the distinct keys of the examples in ascending
  order: this is the population that \<^verbatim>\<open>randomly_grouped_by\<close> samples from.
\<close>

lemma remdups_adj_run:
  "remdups_adj (k # map key xs) = k # remdups_adj (map key (dropWhile (\<lambda>y. key y = k) xs))"
  by (induction xs) auto

lemma keys_groupby: "map fst (groupby key xs) = remdups_adj (map key xs)"
proof (induction key xs rule: groupby.induct)
  case (1 key)
  show ?case by simp
next
  case (2 key x xs)
  then show ?case by (simp add: remdups_adj_run)
qed

lemma dict_set_fresh: "k \<notin> set (map fst d) \<Longrightarrow> dict_set k v d = d @ [(k, v)]"
  by (induction d) auto

lemma foldl_dict_set_distinct:
  "distinct (map fst pairs) \<Longrightarrow> set (map fst d) \<inter> set (map fst pairs) = {} \<Longrightarrow>
   foldl (\<lambda>d (k, v). dict_set k v d) d pairs = d @ pairs"
proof (induction pairs arbitrary: d)
  case Nil
  show ?case by simp
next
  case (Cons p pairs)
  obtain k v where p: "p = (k, v)" by (cases p)
  have "dict_set k v d = d @ [(k, v)]" using Cons.prems p by (intro dict_set_fresh) auto
  moreover have "foldl (\<lambda>d (k, v). dict_set k v d) (d @ [(k, v)]) pairs = (d @ [(k, v)]) @ pairs"
    using Cons.prems p by (intro Cons.IH) auto
  ultimately show ?case using p by simp
qed

lemma OrderedDict_distinct: "distinct (map fst pairs) \<Longrightarrow> OrderedDict pairs = pairs"
  using foldl_dict_set_distinct [of pairs "[]"] by (simp add: OrderedDict_def)

lemma distinct_remdups_adj_sorted:
  fixes xs :: "'k::linorder list"
  shows "sorted xs \<Longrightarrow> distinct (remdups_adj xs)"
proof (induction xs rule: remdups_adj.induct)
  case 1
  show ?case by simp
next
  case (2 x)
  show ?case by simp
next
  case (3 x y xs)
  show ?case
  proof (cases "x = y")
    case True
    then show ?thesis using 3 by simp
  next
    case False
    then have "x < y" using "3.prems" by (simp add: less_le)
    then have "x \<notin> set (y # xs)" using "3.prems" by auto
    then show ?thesis using False 3 by simp
  qed
qed

lemma map_fst_group_values:
  "map fst (map (\<lambda>(k, values). (k, map val values)) g) = map fst g"
  by (induction g) auto

lemma keys_group:
  "keys (group xs key val) = sorted_list_of_set (key ` set xs)"
proof -
  let ?ks = "remdups_adj (map key (sort_key key xs))"
  have s: "sorted ?ks" by (simp add: sorted_sort_key)
  have d: "distinct ?ks" using sorted_sort_key [of key xs] by (rule distinct_remdups_adj_sorted)
  have "map fst (map (\<lambda>(k, values). (k, map val values)) (groupby key (sort_key key xs))) = ?ks"
    by (simp only: map_fst_group_values keys_groupby)
  then have "keys (group xs key val) = ?ks"
    using d by (simp add: keys_def group_def OrderedDict_distinct)
  moreover have "sorted_list_of_set (set ?ks) = ?ks"
    using s d by (rule sorted_list_of_set.idem_if_sorted_distinct)
  moreover have "set ?ks = key ` set xs" by simp
  ultimately show ?thesis by simp
qed

lemma length_keys_group: "length (keys (group xs key val)) = card (key ` set xs)"
  by (simp add: keys_group)


lemma sample_group:
  "group [example_d, example_b, example_c, example_a, example_b] id_ex (\<lambda>x. x) =
     [(''a'', [example_a]), (''b'', [example_b, example_b]), (''c'', [example_c]),
      (''d'', [example_d])]"
  by code_simp

subsection \<open>Sampling without replacement\<close>

lemma pool_remove:
  assumes "j < length pool"
  shows "mset pool = add_mset (pool ! j) (mset (butlast (pool[j := last pool])))"
proof -
  from assms have ne: "pool \<noteq> []" by auto
  then have split: "pool = butlast pool @ [last pool]" by simp
  then have m: "mset pool = add_mset (last pool) (mset (butlast pool))"
    by (metis mset.simps(2) mset_append union_mset_add_mset_right add.right_neutral mset.simps(1))
  show ?thesis
  proof (cases "j = length pool - 1")
    case True
    then have "pool ! j = last pool" using ne by (simp add: last_conv_nth)
    then have "pool[j := last pool] = pool" by (metis list_update_id)
    then show ?thesis using m \<open>pool ! j = last pool\<close> by simp
  next
    case False
    then have j: "j < length (butlast pool)" using assms by simp
    have "butlast (pool[j := last pool]) = (butlast pool)[j := last pool]"
      using False by (simp add: butlast_list_update)
    then have "mset (butlast (pool[j := last pool])) =
        add_mset (last pool) (mset (butlast pool) - {#butlast pool ! j#})"
      using j by (simp add: mset_update)
    moreover have "butlast pool ! j = pool ! j" using j by (simp add: nth_butlast)
    moreover have "pool ! j \<in># mset (butlast pool)"
      using j \<open>butlast pool ! j = pool ! j\<close> by (metis nth_mem set_mset_mset)
    ultimately show ?thesis using m by simp
  qed
qed

lemma sample_loop_props:
  "k \<le> length pool \<Longrightarrow>
   length (fst (sample_loop g pool k)) = k \<and> mset (fst (sample_loop g pool k)) \<subseteq># mset pool"
proof (induction k arbitrary: g pool)
  case 0
  show ?case by simp
next
  case (Suc k)
  let ?j = "g 0 mod length pool"
  let ?g = "\<lambda>i. g (Suc i)"
  let ?pool = "butlast (pool[?j := last pool])"
  from Suc.prems have "0 < length pool" by (cases pool) simp_all
  then have j: "?j < length pool" by simp
  have len: "k \<le> length ?pool" using Suc.prems by simp
  have step: "fst (sample_loop g pool (Suc k)) = pool ! ?j # fst (sample_loop ?g ?pool k)"
    by (simp add: randbelow_def split: prod.splits)
  from Suc.IH [OF len, of ?g]
  have ih: "length (fst (sample_loop ?g ?pool k)) = k"
    "mset (fst (sample_loop ?g ?pool k)) \<subseteq># mset ?pool" by simp_all
  have "mset (fst (sample_loop g pool (Suc k))) \<subseteq># add_mset (pool ! ?j) (mset ?pool)"
    unfolding step using ih(2) by simp
  then show ?case unfolding step using ih(1) pool_remove [OF j] by simp
qed

lemma distinct_sub_mset:
  assumes "mset r \<subseteq># mset p" "distinct p"
  shows "distinct r"
proof -
  have "count (mset r) a = (if a \<in> set r then 1 else 0)" for a
  proof (cases "a \<in> set r")
    case True
    then have "1 \<le> count (mset r) a" by (simp add: Suc_le_eq)
    moreover have "count (mset r) a \<le> count (mset p) a" using assms(1) by (rule mset_subset_eq_count)
    moreover have "count (mset p) a \<le> 1" using assms(2) by (simp add: distinct_count_atmost_1)
    ultimately have "count (mset r) a = 1" by linarith
    then show ?thesis using True by simp
  next
    case False
    then show ?thesis by (simp add: count_eq_zero_iff)
  qed
  then show ?thesis by (simp add: distinct_count_atmost_1)
qed

lemma random_sample_props:
  "random_sample g population k =
     (if 0 \<le> k \<and> k \<le> int (length population)
      then Inr (sample_loop g population (nat k)) else Inl SampleError)"
  "0 \<le> k \<Longrightarrow> k \<le> int (length population) \<Longrightarrow>
     int (length (fst (sample_loop g population (nat k)))) = k
     \<and> mset (fst (sample_loop g population (nat k))) \<subseteq># mset population"
  using sample_loop_props [of "nat k" population g] by (simp_all add: random_sample_def)


subsection \<open>The random splits\<close>

lemma randomly_run:
  "fst (randomly (\<lambda>s i. i) (\<lambda>n. 3) (\<lambda>i. 7) [example_a, example_b, example_c, example_d])
   = Inr ([example_a, example_b, example_d], [example_c])"
  by code_simp

text \<open>
  C2. For every example list and every key function, a split of the randomly family gives the
  same result whatever state the process's random generator is in when the split is called:
  the split seeds the generator with the constant 42 before it samples, so two applications
  to the same list, in one run or in two, yield the same (training, test) partition (or the
  same error), and leave the generator in the same state.
\<close>

theorem randomly_grouped_by_deterministic:
  "randomly_grouped_by seed key_from_example training_count g exs =
     randomly_grouped_by seed key_from_example training_count g' exs
   \<and> fst (randomly_grouped_by seed key_from_example training_count
             (snd (randomly_grouped_by seed key_from_example training_count g exs)) exs) =
       fst (randomly_grouped_by seed key_from_example training_count g exs)
   \<and> randomly seed training_count g exs = randomly seed training_count g' exs
   \<and> randomly_grouped_by_directory seed audio_directory training_count g exs =
       randomly_grouped_by_directory seed audio_directory training_count g' exs"
  by (simp add: randomly_grouped_by_def randomly_def randomly_grouped_by_directory_def)

lemma filter_partition:
  "mset (filter P xs) + mset (filter (\<lambda>x. \<not> P x) xs) = mset xs
   \<and> (\<forall>e \<in> set xs. (e \<in> set (filter P xs)) \<noteq> (e \<in> set (filter (\<lambda>x. \<not> P x) xs)))
   \<and> subseq (filter P xs) xs \<and> subseq (filter (\<lambda>x. \<not> P x) xs) xs"
  by (induction xs) auto

lemma randomly_grouped_by_result:
  "randomly_grouped_by seed key tc g exs =
     (let n = card (key ` set exs) in
      if 0 \<le> tc n \<and> tc n \<le> int n
      then (let ks = set (fst (sample_loop (seed 42) (sorted_list_of_set (key ` set exs)) (nat (tc n))))
            in (Inr (filter (\<lambda>e. key e \<in> ks) exs, filter (\<lambda>e. key e \<notin> ks) exs),
                snd (sample_loop (seed 42) (sorted_list_of_set (key ` set exs)) (nat (tc n)))))
      else (Inl SampleError, seed 42))"
  by (simp add: randomly_grouped_by_def keys_group random_sample_def Let_def split: prod.splits)

text \<open>
  C10. Whenever \<^verbatim>\<open>randomly_grouped_by\<close> returns, and it returns whenever the training count
  computed from the share lies between zero and the number of distinct keys, its training and
  test lists together hold every input example exactly as often as the input does, every
  input example is in exactly one of the two lists, and each list is a subsequence of the
  input (the relative order is kept). \<^verbatim>\<open>by_directory\<close> always returns, with the same
  properties.
\<close>

theorem split_is_partition:
  "(\<forall>tr te g'. randomly_grouped_by seed key training_count g exs = (Inr (tr, te), g') \<longrightarrow>
        mset tr + mset te = mset exs
      \<and> (\<forall>e \<in> set exs. (e \<in> set tr) \<noteq> (e \<in> set te))
      \<and> subseq tr exs \<and> subseq te exs)
   \<and> (0 \<le> training_count (card (key ` set exs))
        \<and> training_count (card (key ` set exs)) \<le> int (card (key ` set exs)) \<longrightarrow>
        (\<exists>tr te g'. randomly_grouped_by seed key training_count g exs = (Inr (tr, te), g')))
   \<and> (\<forall>tr te. by_directory audio_directory_name test_directory_name exs = (tr, te) \<longrightarrow>
        mset tr + mset te = mset exs
      \<and> (\<forall>e \<in> set exs. (e \<in> set tr) \<noteq> (e \<in> set te))
      \<and> subseq tr exs \<and> subseq te exs)"
proof -
  have 1: "mset tr + mset te = mset exs
      \<and> (\<forall>e \<in> set exs. (e \<in> set tr) \<noteq> (e \<in> set te))
      \<and> subseq tr exs \<and> subseq te exs"
    if r: "randomly_grouped_by seed key training_count g exs = (Inr (tr, te), g')" for tr te g'
  proof -
    from r obtain ks where "tr = filter (\<lambda>e. key e \<in> ks) exs" "te = filter (\<lambda>e. \<not> key e \<in> ks) exs"
      unfolding randomly_grouped_by_result by (auto simp: Let_def split: if_splits)
    then show ?thesis using filter_partition [of "\<lambda>e. key e \<in> ks" exs] by simp
  qed
  have 2: "\<exists>tr te g'. randomly_grouped_by seed key training_count g exs = (Inr (tr, te), g')"
    if "0 \<le> training_count (card (key ` set exs))
        \<and> training_count (card (key ` set exs)) \<le> int (card (key ` set exs))"
    using that unfolding randomly_grouped_by_result by (simp add: Let_def)
  have 3: "mset tr + mset te = mset exs
      \<and> (\<forall>e \<in> set exs. (e \<in> set tr) \<noteq> (e \<in> set te))
      \<and> subseq tr exs \<and> subseq te exs"
    if "by_directory audio_directory_name test_directory_name exs = (tr, te)" for tr te
  proof -
    from that have "te = filter (\<lambda>e. audio_directory_name e = test_directory_name) exs"
      "tr = filter (\<lambda>e. \<not> audio_directory_name e = test_directory_name) exs"
      by (simp_all add: by_directory_def Let_def)
    then show ?thesis
      using filter_partition [of "\<lambda>e. audio_directory_name e = test_directory_name" exs]
      by (auto simp: add.commute)
  qed
  from 1 2 3 show ?thesis by blast
qed


theorem split_is_partition_witness:
  "(0::int) \<le> 3
   \<and> 3 \<le> int (card (id_ex ` set [example_a, example_b, example_c, example_d]))
   \<and> (\<exists>tr te g'. randomly_grouped_by (\<lambda>s i. i) id_ex (\<lambda>n. 3) (\<lambda>i. 7)
                     [example_a, example_b, example_c, example_d] = (Inr (tr, te), g')
         \<and> mset tr + mset te = mset [example_a, example_b, example_c, example_d]
         \<and> subseq tr [example_a, example_b, example_c, example_d]
         \<and> subseq te [example_a, example_b, example_c, example_d])
   \<and> by_directory sample_directory_name ''test'' [example_a, example_b, example_c, example_d]
       = ([example_a, example_b], [example_c, example_d])
   \<and> mset [example_a, example_b] + mset [example_c, example_d]
       = mset [example_a, example_b, example_c, example_d]
   \<and> subseq [example_a, example_b] [example_a, example_b, example_c, example_d]
   \<and> subseq [example_c, example_d] [example_a, example_b, example_c, example_d]"
proof -
  let ?E = "[example_a, example_b, example_c, example_d]"
  note t = split_is_partition [of "\<lambda>s i. i" id_ex "\<lambda>n. 3" "\<lambda>i. 7" ?E sample_directory_name "''test''"]
  have c: "card (id_ex ` set ?E) = 4"
    by (simp add: example_a_def example_b_def example_c_def example_d_def)
  then have h: "(0::int) \<le> 3" "3 \<le> int (card (id_ex ` set ?E))" by simp_all
  then obtain tr te g' where
    r: "randomly_grouped_by (\<lambda>s i. i) id_ex (\<lambda>n. 3) (\<lambda>i. 7) ?E = (Inr (tr, te), g')"
    using t [THEN conjunct2, THEN conjunct1] by blast
  then have p: "mset tr + mset te = mset ?E" "subseq tr ?E" "subseq te ?E"
    using t [THEN conjunct1] by blast+
  have d: "by_directory sample_directory_name ''test'' ?E = ([example_a, example_b], [example_c, example_d])"
    by (simp add: by_directory_def sample_directory_name_def
        example_a_def example_b_def example_c_def example_d_def)
  then have q: "mset [example_a, example_b] + mset [example_c, example_d] = mset ?E"
      "subseq [example_a, example_b] ?E" "subseq [example_c, example_d] ?E"
    using t [THEN conjunct2, THEN conjunct2] by blast+
  from h r p d q show ?thesis by blast
qed

subsection \<open>Training batches\<close>

lemma distinct_spectrograms:
  assumes "Corpus_init tr te = Inr c"
  shows "distinct (labeled_training_spectrograms (LabeledSpectrogramBatchGenerator_init c dir bs))"
proof -
  have "\<exists>c. Corpus_init tr te = Inr c" using assms by blast
  then have "distinct (map id_ex tr)" by (simp add: Corpus_init_ok_iff)
  then have "distinct tr" by (simp add: distinct_map)
  moreover have "training_examples c = tr"
    using assms by (subst (asm) Corpus_init_cases) (auto split: if_splits)
  moreover have "inj (\<lambda>e. CachedLabeledSpectrogram_init e dir)"
    by (rule injI) (simp add: CachedLabeledSpectrogram_init_def)
  ultimately show ?thesis
    by (simp add: LabeledSpectrogramBatchGenerator_init_def Let_def distinct_map inj_on_def)
qed

text \<open>
  C9. For a generator built from a Corpus: when the batch size exceeds the number of training
  examples, a draw from \<^verbatim>\<open>training_batches()\<close> raises the \<^verbatim>\<open>ValueError\<close> of
  \<^verbatim>\<open>random.sample\<close>, and every further draw from the same generator object raises too
  (\<^verbatim>\<open>StopIteration\<close>: the generator is finished). When the batch size is a count of at most
  the training set size, every draw yields a batch, and every batch that is ever yielded has
  exactly \<open>batch_size\<close> elements, pairwise distinct, all taken from the list of training
  spectrograms.
\<close>

theorem training_batches_sample:
  assumes "Corpus_init tr te = Inr c"
    and "gen = LabeledSpectrogramBatchGenerator_init c dir bs"
  shows "(int (length (labeled_training_spectrograms gen)) < batch_size gen \<longrightarrow>
            (\<forall>g. training_batches_next gen Running g = (Inl SampleError, Finished, g))
          \<and> (\<forall>g. training_batches_next gen Finished g = (Inl StopIteration, Finished, g)))
       \<and> (0 \<le> batch_size gen \<and> batch_size gen \<le> int (length (labeled_training_spectrograms gen)) \<longrightarrow>
            (\<forall>g. \<exists>batch g'. training_batches_next gen Running g = (Inr batch, Running, g')))
       \<and> (\<forall>st g batch st' g'. training_batches_next gen st g = (Inr batch, st', g') \<longrightarrow>
              int (length batch) = batch_size gen
            \<and> distinct batch
            \<and> mset batch \<subseteq># mset (labeled_training_spectrograms gen)
            \<and> set batch \<subseteq> set (labeled_training_spectrograms gen))"
proof -
  let ?T = "labeled_training_spectrograms gen"
  have dT: "distinct ?T" using distinct_spectrograms [OF assms(1)] assms(2) by simp
  have 1: "training_batches_next gen Running g = (Inl SampleError, Finished, g)"
    if "int (length ?T) < batch_size gen" for g
    using that by (simp add: training_batches_next_def random_sample_def)
  have stop: "training_batches_next gen Finished g = (Inl StopIteration, Finished, g)" for g
    by (simp add: training_batches_next_def)
  have 2: "\<exists>batch g'. training_batches_next gen Running g = (Inr batch, Running, g')"
    if "0 \<le> batch_size gen \<and> batch_size gen \<le> int (length ?T)" for g
    using that by (simp add: training_batches_next_def random_sample_def split: prod.splits)
  have 3: "int (length batch) = batch_size gen \<and> distinct batch \<and> mset batch \<subseteq># mset ?T
            \<and> set batch \<subseteq> set ?T"
    if y: "training_batches_next gen st g = (Inr batch, st', g')" for st g batch st' g'
  proof -
    from y have k: "0 \<le> batch_size gen" "batch_size gen \<le> int (length ?T)"
      and b: "batch = fst (sample_loop g ?T (nat (batch_size gen)))"
      by (auto simp: training_batches_next_def random_sample_def
          split: generator_state.splits if_splits prod.splits)
    from random_sample_props(2) [OF k, of g]
    have l: "int (length batch) = batch_size gen" and m: "mset batch \<subseteq># mset ?T"
      unfolding b by simp_all
    from m dT have "distinct batch" by (rule distinct_sub_mset)
    moreover from m have "set batch \<subseteq> set ?T" by (metis set_mset_mono set_mset_mset)
    ultimately show ?thesis using l m by blast
  qed
  from 1 stop 2 3 show ?thesis by blast
qed

theorem training_batches_sample_witness:
  "Corpus_init [example_a, example_b] [example_c] = Inr sample_corpus
   \<and> int (length (labeled_training_spectrograms
                     (LabeledSpectrogramBatchGenerator_init sample_corpus ''cache'' 3))) < 3
   \<and> training_batches_next (LabeledSpectrogramBatchGenerator_init sample_corpus ''cache'' 3)
        Running (\<lambda>i. i) = (Inl SampleError, Finished, \<lambda>i. i)
   \<and> (0::int) \<le> 2
   \<and> 2 \<le> int (length (labeled_training_spectrograms
                          (LabeledSpectrogramBatchGenerator_init sample_corpus ''cache'' 2)))
   \<and> (\<exists>batch g'. training_batches_next (LabeledSpectrogramBatchGenerator_init sample_corpus ''cache'' 2)
                     Running (\<lambda>i. i) = (Inr batch, Running, g')
         \<and> int (length batch) = 2 \<and> distinct batch
         \<and> set batch \<subseteq> set (labeled_training_spectrograms
                                 (LabeledSpectrogramBatchGenerator_init sample_corpus ''cache'' 2)))"
proof -
  let ?G3 = "LabeledSpectrogramBatchGenerator_init sample_corpus ''cache'' 3"
  let ?G2 = "LabeledSpectrogramBatchGenerator_init sample_corpus ''cache'' 2"
  have i: "Corpus_init [example_a, example_b] [example_c] = Inr sample_corpus"
    by (simp add: Corpus_init_def duplicates_def Counter_def sample_corpus_def
        example_a_def example_b_def example_c_def)
  note t3 = training_batches_sample [OF i refl, of "''cache''" 3]
  note t2 = training_batches_sample [OF i refl, of "''cache''" 2]
  have b3: "batch_size ?G3 = 3" "length (labeled_training_spectrograms ?G3) = 2"
    and b2: "batch_size ?G2 = 2" "length (labeled_training_spectrograms ?G2) = 2"
    by (simp_all add: LabeledSpectrogramBatchGenerator_init_def Let_def sample_corpus_def)
  have e: "training_batches_next ?G3 Running (\<lambda>i. i) = (Inl SampleError, Finished, \<lambda>i. i)"
    using t3 [THEN conjunct1] b3 by simp
  have "0 \<le> batch_size ?G2 \<and> batch_size ?G2 \<le> int (length (labeled_training_spectrograms ?G2))"
    by (simp only: b2) simp
  with t2 [THEN conjunct2, THEN conjunct1]
  have "\<forall>g. \<exists>batch g'. training_batches_next ?G2 Running g = (Inr batch, Running, g')"
    by (rule mp)
  then obtain batch g' where y: "training_batches_next ?G2 Running (\<lambda>i. i) = (Inr batch, Running, g')"
    by blast
  then have "int (length batch) = 2" "distinct batch"
      "set batch \<subseteq> set (labeled_training_spectrograms ?G2)"
    using t2 [THEN conjunct2, THEN conjunct2] b2 by (metis)+
  with i e y b3 b2 show ?thesis by auto
qed

text \<open>
  The batch drawn depends on the state of the random generator, unlike the splits above.
\<close>

lemma training_batches_depend_on_generator:
  "training_batches_next (LabeledSpectrogramBatchGenerator_init sample_corpus ''cache'' 1) Running (\<lambda>i. 0)
     \<noteq> training_batches_next (LabeledSpectrogramBatchGenerator_init sample_corpus ''cache'' 1) Running (\<lambda>i. 1)"
  by (simp add: training_batches_next_def random_sample_def randbelow_def
        LabeledSpectrogramBatchGenerator_init_def Let_def sample_corpus_def
        CachedLabeledSpectrogram_init_def example_a_def example_b_def)


subsection \<open>Saving and loading\<close>

lemma save_rows:
  "save c = map (\<lambda>e. [id_ex e, audio_file e, csv_field (label e), ''training'']) (training_examples c) @
            map (\<lambda>e. [id_ex e, audio_file e, csv_field (label e), ''test'']) (test_examples c)"
  by (simp add: save_def comp_def)

text \<open>
  What is read back from the manifest is not what was written where a field holds a carriage
  return: it comes back as a line feed, and two ids that differ in this only come back equal.
\<close>

lemma universal_newlines_carriage_return:
  "universal_newlines [CHR ''x'', CR, CHR ''y''] = [CHR ''x'', LF, CHR ''y'']"
  "universal_newlines [CHR ''x'', CR, LF, CHR ''y''] = [CHR ''x'', LF, CHR ''y'']"
  "universal_newlines [CHR ''x'', CR] = universal_newlines [CHR ''x'', LF]"
  by (simp_all add: CR_def LF_def)

lemma universal_newlines_id: "CR \<notin> set s \<Longrightarrow> universal_newlines s = s"
  by (induction s rule: universal_newlines.induct) auto

text \<open>
  The call that \<^verbatim>\<open>load\<close> makes for every row names the keyword \<^verbatim>\<open>audio_file\<close>, which is
  no parameter of the constructor, and leaves out \<^verbatim>\<open>get_raw_sound_and_sample_rate\<close>. So
  \<^verbatim>\<open>load\<close> raises on every manifest that has a row, and returns the empty Corpus on the
  empty manifest.
\<close>

lemma LabeledExample_rejects_audio_file:
  "bind_keywords LabeledExample_parameters LabeledExample_required
     [''audio_file'', ''id'', ''label''] = Inl TypeError"
  by (simp add: bind_keywords_def LabeledExample_parameters_def)

lemma load_rows_save:
  "load_rows (csv_reader (save c)) =
     (if training_examples c = [] \<and> test_examples c = [] then Inr [] else Inl TypeError)"
proof (cases "training_examples c")
  case Nil
  show ?thesis
  proof (cases "test_examples c")
    case Nil
    with \<open>training_examples c = []\<close> show ?thesis by (simp add: save_def csv_reader_def)
  next
    case (Cons e es)
    with \<open>training_examples c = []\<close> show ?thesis
      by (simp add: save_def csv_reader_def LabeledExample_rejects_audio_file)
  qed
next
  case (Cons e es)
  then show ?thesis by (simp add: save_def csv_reader_def LabeledExample_rejects_audio_file)
qed

lemma load_save_raises:
  "training_examples c \<noteq> [] \<or> test_examples c \<noteq> [] \<Longrightarrow> load (save c) = Inl TypeError"
  by (auto simp: load_def load_rows_save)

lemma load_save_empty:
  "load (save \<lparr>training_examples = [], test_examples = [], examples = []\<rparr>) =
     Inr \<lparr>training_examples = [], test_examples = [], examples = []\<rparr>"
  by (simp add: load_def load_rows_save Corpus_init_def duplicates_def Counter_def)


subsection \<open>The power level\<close>

text \<open>
  On a power value that is not negative, \<^verbatim>\<open>power_to_decibel\<close> returns what the power-level
  claim says: the level \<open>10 * log10(x)\<close> where \<open>x\<close> is positive and the level is at least the
  floor, and the floor otherwise. A negative value, which the squared magnitudes of a power
  spectrogram never are, raises.
\<close>

lemma power_to_decibel_nonneg:
  "0 \<le> x \<Longrightarrow>
   \<exists>n. power_to_decibel x min_decibel_default = Inr n
     \<and> value_of n = (if 0 < x \<and> - 150 \<le> 10 * log 10 x then 10 * log 10 x else - 150)
     \<and> (n = PyInt (- 150) \<or> n = PyFloat (10 * log 10 x))"
  by (auto simp: power_to_decibel_def min_decibel_default_def math_log10_def Let_def)

lemma power_to_decibel_negative:
  "x < 0 \<Longrightarrow> power_to_decibel x m = Inl MathDomainError"
  by (simp add: power_to_decibel_def math_log10_def)

text \<open>
  The array that \<^verbatim>\<open>_power_level_from_power_spectrogram\<close> returns for a power spectrogram
  holds these levels as floats when the first element of the spectrogram has a level of at
  least the floor, and holds every level cut down to an integer when the first element is zero
  or has a level below the floor.
\<close>

lemma sequence_map:
  "\<forall>x \<in> set xs. f x = Inr (g x) \<Longrightarrow> sequence (map f xs) = Inr (map g xs)"
  by (induction xs) auto

lemma power_to_decibel_level:
  "0 \<le> x \<Longrightarrow> power_to_decibel x min_decibel_default = Inr (level x)"
  by (auto simp: power_to_decibel_def min_decibel_default_def math_log10_def Let_def level_def)

lemma power_levels:
  assumes "\<forall>row \<in> set array. \<forall>x \<in> set row. 0 \<le> x"
  shows "sequence (map (\<lambda>row. sequence (map (\<lambda>x. power_to_decibel x min_decibel_default) row)) array)
         = Inr (map (map level) array)"
proof -
  have "\<forall>row \<in> set array.
          sequence (map (\<lambda>x. power_to_decibel x min_decibel_default) row) = Inr (map level row)"
    using assms by (auto intro!: sequence_map simp: power_to_decibel_level)
  then show ?thesis by (rule sequence_map)
qed

lemma power_level_float_array:
  assumes "\<forall>row \<in> set array. \<forall>x \<in> set row. 0 \<le> x"
    and "concat array = x0 # rest" and "0 < x0" and "- 150 \<le> 10 * log 10 x0"
  shows "power_level_from_power_spectrogram array =
           Inr (FloatArray (map (map (\<lambda>x. if 0 < x \<and> - 150 \<le> 10 * log 10 x
                                            then 10 * log 10 x else - 150)) array))"
proof -
  have "x0 \<in> set (concat array)" using assms(2) by simp
  then have "0 \<le> x0" using assms(1) by auto
  then have f: "power_to_decibel x0 min_decibel_default = Inr (PyFloat (10 * log 10 x0))"
    using assms(3,4) by (simp add: power_to_decibel_level level_def)
  have v: "value_of (level x) = (if 0 < x \<and> - 150 \<le> 10 * log 10 x then 10 * log 10 x else - 150)" for x
    by (simp add: level_def)
  show ?thesis
    by (simp add: power_level_from_power_spectrogram_def vectorize_def assms(2) f
        power_levels [OF assms(1)] comp_def v)
qed

lemma power_level_int_array:
  assumes "\<forall>row \<in> set array. \<forall>x \<in> set row. 0 \<le> x"
    and "concat array = x0 # rest" and "x0 = 0 \<or> 10 * log 10 x0 < - 150"
  shows "power_level_from_power_spectrogram array =
           Inr (IntArray (map (map (\<lambda>x. int_of_number (level x))) array))"
proof -
  have "x0 \<in> set (concat array)" using assms(2) by simp
  then have "0 \<le> x0" using assms(1) by auto
  then have f: "power_to_decibel x0 min_decibel_default = Inr (PyInt (- 150))"
    using assms(3) by (auto simp: power_to_decibel_level level_def)
  show ?thesis
    by (simp add: power_level_from_power_spectrogram_def vectorize_def assms(2) f
        power_levels [OF assms(1)] comp_def)
qed

lemma level_of_two: "3 < 10 * log 10 (2::real)" "10 * log 10 (2::real) < 4"
proof -
  have e: "10 * log 10 (2::real) = log 10 1024"
    using log_nat_power [of "2::real" 10 10] by simp
  have "log 10 (1000::real) < log 10 1024" by (subst log_less_cancel_iff) simp_all
  moreover have "log 10 (1000::real) = 3" using log_nat_power [of "10::real" 10 3] by simp
  ultimately show "3 < 10 * log 10 (2::real)" using e by simp
  have "log 10 (1024::real) < log 10 10000" by (subst log_less_cancel_iff) simp_all
  moreover have "log 10 (10000::real) = 4" using log_nat_power [of "10::real" 10 4] by simp
  ultimately show "10 * log 10 (2::real) < 4" using e by simp
qed

lemma floor_level_of_two: "\<lfloor>10 * log 10 (2::real)\<rfloor> = 3"
  using level_of_two by (simp add: floor_eq_iff)

lemma power_to_decibel_zero: "power_to_decibel 0 min_decibel_default = Inr (PyInt (- 150))"
  by (simp add: power_to_decibel_def min_decibel_default_def)

lemma power_to_decibel_two: "power_to_decibel 2 min_decibel_default = Inr (PyFloat (10 * log 10 2))"
  using level_of_two(1) by (simp add: power_to_decibel_def min_decibel_default_def math_log10_def Let_def)

text \<open>
  C5. The power-level spectrogram should map each power value \<open>x\<close> to \<open>10 * log10(x)\<close>
  where that level is at least the floor of \<open>-150\<close>, and to the floor otherwise. The code
  does not: on the spectrogram with the one row 0, 2 it returns the integers -150, 3, and the
  level of the power value 2, which is \<open>10 * log10(2)\<close>, is above 3.
\<close>

theorem power_level_truncated:
  "power_level_from_power_spectrogram [[0, 2]] = Inr (IntArray [[- 150, 3]])
   \<and> 3 < 10 * log 10 (2::real)"
  using level_of_two(1)
  by (simp add: power_level_from_power_spectrogram_def vectorize_def power_to_decibel_zero
      power_to_decibel_two floor_level_of_two)

subsection \<open>Z-normalisation\<close>

lemma concat_map_map: "concat (map (map f) a) = map f (concat a)"
  by (simp add: map_concat)

lemma sum_list_shift:
  fixes xs :: "real list"
  shows "sum_list (map (\<lambda>v. (v - m) / s) xs) = (sum_list xs - real (length xs) * m) / s"
  by (induction xs) (simp_all add: add_divide_distrib diff_divide_distrib algebra_simps)

lemma sum_list_scaled_squares:
  fixes xs :: "real list"
  shows "sum_list (map (\<lambda>v. ((v - m) / s) ^ 2) xs) = sum_list (map (\<lambda>v. (v - m) ^ 2) xs) / s ^ 2"
  by (induction xs) (simp_all add: add_divide_distrib power_divide)

lemma sum_list_squares_nonneg:
  fixes xs :: "real list"
  shows "0 \<le> sum_list (map (\<lambda>v. (v - m) ^ 2) xs)"
  by (induction xs) simp_all

lemma std_flat:
  "std array = sqrt (sum_list (map (\<lambda>v. (v - mean array) ^ 2) (concat array))
                     / real (length (concat array)))"
  by (simp add: std_def mean_def concat_map_map)

lemma z_normalize_properties:
  assumes "std array \<noteq> 0"
  shows "\<exists>z. z_normalize array = Some z
           \<and> z = map (map (\<lambda>v. (v - mean array) / std array)) array
           \<and> mean z = 0 \<and> std z = 1"
proof -
  let ?xs = "concat array"
  let ?n = "real (length ?xs)"
  let ?m = "mean array"
  let ?s = "std array"
  let ?S = "sum_list (map (\<lambda>v. (v - ?m) ^ 2) ?xs)"
  let ?z = "map (map (\<lambda>v. (v - ?m) / ?s)) array"
  have s_def: "?s = sqrt (?S / ?n)" by (rule std_flat)
  have nonneg: "0 \<le> ?S / ?n" using sum_list_squares_nonneg [of ?m ?xs] by simp
  have s2: "?s ^ 2 = ?S / ?n" unfolding s_def using nonneg by simp
  have n: "?n \<noteq> 0"
  proof
    assume "?n = 0"
    then have "?s = 0" unfolding s_def by simp
    with assms show False by simp
  qed
  have m: "?n * ?m = sum_list ?xs" using n by (simp add: mean_def)
  have zc: "concat ?z = map (\<lambda>v. (v - ?m) / ?s) ?xs" by (rule concat_map_map)
  have "sum_list (concat ?z) = (sum_list ?xs - ?n * ?m) / ?s"
    unfolding zc by (rule sum_list_shift)
  also have "\<dots> = 0" unfolding m by simp
  finally have sum_z: "sum_list (concat ?z) = 0" .
  have mz: "mean ?z = 0"
  proof -
    have "mean ?z = sum_list (concat ?z) / real (length (concat ?z))" by (rule mean_def)
    then show ?thesis unfolding sum_z by simp
  qed
  have "std ?z = sqrt (sum_list (map (\<lambda>w. (w - mean ?z) ^ 2) (concat ?z))
                         / real (length (concat ?z)))"
    by (rule std_flat)
  also have "\<dots> = sqrt (sum_list (map (\<lambda>v. ((v - ?m) / ?s) ^ 2) ?xs) / ?n)"
    unfolding mz zc by (simp add: comp_def)
  also have "\<dots> = sqrt ((?S / ?s ^ 2) / ?n)" by (simp only: sum_list_scaled_squares)
  also have "(?S / ?s ^ 2) / ?n = (?S / ?n) / ?s ^ 2" by simp
  also have "\<dots> = ?s ^ 2 / ?s ^ 2" by (simp only: s2)
  also have "\<dots> = 1" using assms by simp
  finally have sz: "std ?z = 1" by simp
  have "z_normalize array = Some ?z" using assms by (simp add: z_normalize_def)
  with mz sz show ?thesis by blast
qed

lemma z_normalized_transposed_spectrogram_mean_std:
  assumes "std (transpose mel_spectrogram) \<noteq> 0"
  shows "\<exists>z. z_normalized_transposed_spectrogram mel_spectrogram = Some z \<and> mean z = 0 \<and> std z = 1"
  using z_normalize_properties [OF assms]
  by (auto simp: z_normalized_transposed_spectrogram_def)




end
